theory Spec2Isabelle
  imports Main "HOL-Library.AList"
begin

section \<open>The salsa mixer: data\<close>

text \<open>
  The repository holds two variants of one browser script: \<^verbatim>\<open>src/mixer.js\<close> and a second
  file (\<^verbatim>\<open>src/unnamed/part_000\<close>) that adds a message box and changes \<^verbatim>\<open>togglePlayPause\<close>.
  Functions whose text is the same in both files are embedded once; the ones that differ
  take the variant as an argument or are embedded twice.
\<close>

datatype variant = Mixer | Part000

text \<open>
  An entry of the constant \<^verbatim>\<open>instruments\<close>. The field \<^verbatim>\<open>triggerBeats\<close> exists in
  \<^verbatim>\<open>mixer.js\<close> only and no function of either file reads it; it is left out.
\<close>

record instrument =
  name :: string
  url :: string

definition instruments :: "instrument list" where
  "instruments =
    [\<lparr>name = ''Clave'', url = ''clave.wav''\<rparr>,
     \<lparr>name = ''Conga'', url = ''conga.wav''\<rparr>,
     \<lparr>name = ''Bass'', url = ''bass.wav''\<rparr>,
     \<lparr>name = ''Piano'', url = ''piano.wav''\<rparr>,
     \<lparr>name = ''Maracas'', url = ''maracas.wav''\<rparr>,
     \<lparr>name = ''Guiro'', url = ''guiro.wav''\<rparr>,
     \<lparr>name = ''Trumpet'', url = ''trumpet.wav''\<rparr>,
     \<lparr>name = ''Trombone'', url = ''trombone.wav''\<rparr>,
     \<lparr>name = ''Vocals'', url = ''vocals.wav''\<rparr>]"

definition totalBeats :: int where
  "totalBeats = 8"

text \<open>
  The value of \<^verbatim>\<open>player.volume.value\<close>, in decibel. The scripts write only \<^verbatim>\<open>0\<close> and
  \<^verbatim>\<open>-Infinity\<close>.
\<close>

datatype gain = Db int | NegInfinity

text \<open>
  Modelled from the spec: the playback handle of the external audio engine, which is not
  code of this repository. The spec's PlayerState gives it a flag \<^verbatim>\<open>isPlaying\<close>;
  \<^verbatim>\<open>start\<close> sets the flag and \<^verbatim>\<open>pause\<close> clears it, and neither touches the gain.
  The scripts construct a handle from \<^verbatim>\<open>url\<close>, \<^verbatim>\<open>loop\<close>, \<^verbatim>\<open>autostart\<close> and
  \<^verbatim>\<open>volume\<close> and never assign \<^verbatim>\<open>player.name\<close>, so the name a handle carries is the
  engine's choice: it is the field \<open>pname\<close>, filled by a parameter of the model.
\<close>

record player =
  pname :: string
  volume :: gain
  isPlaying :: bool

definition start :: "player \<Rightarrow> player" where
  "start p = p\<lparr>isPlaying := True\<rparr>"

definition pause :: "player \<Rightarrow> player" where
  "pause p = p\<lparr>isPlaying := False\<rparr>"

text \<open>
  \<^verbatim>\<open>new Tone.Player({url, loop: true, autostart: false, volume: 0})\<close>; \<open>hname\<close> maps the
  url, the only option that varies, to the name the engine gives the handle.
\<close>

definition new_player :: "(string \<Rightarrow> string) \<Rightarrow> string \<Rightarrow> player" where
  "new_player hname u = \<lparr>pname = hname u, volume = Db 0, isPlaying = False\<rparr>"

text \<open>A DOM element, with the attributes the scripts read or write.\<close>

record element =
  elem_id :: string
  textContent :: string
  disabled :: bool
  classList :: "string list"

text \<open>
  \<^verbatim>\<open>classList.add(t1, ..., tn)\<close> appends each token that is not yet present;
  \<^verbatim>\<open>classList.remove(t)\<close> deletes it.
\<close>

fun classList_add :: "string list \<Rightarrow> string list \<Rightarrow> string list" where
  "classList_add cl [] = cl"
| "classList_add cl (t # ts) = classList_add (if t \<in> set cl then cl else cl @ [t]) ts"

definition classList_remove :: "string list \<Rightarrow> string \<Rightarrow> string list" where
  "classList_remove cl t = removeAll t cl"

datatype transport_state = Started | Stopped | Paused

datatype log = Log string | Error string

datatype error = TypeError

text \<open>
  The script's global variables and the part of the page it touches. \<open>players\<close>,
  \<open>instrumentButtons\<close> and \<open>instrumentStates\<close> are the three object literals used as
  dictionaries (insertion-ordered, so association lists); \<open>beatCounter\<close> is the
  variable captured by the beat callback; \<open>beatDisplay\<close> holds the children of the
  \<^verbatim>\<open>beat-display\<close> element in document order; \<open>transport\<close> is
  \<^verbatim>\<open>Tone.Transport.state\<close> and \<open>contextRunning\<close> whether \<^verbatim>\<open>Tone.context.state\<close> is
  \<^verbatim>\<open>'running'\<close>. \<open>masterVolume\<close> keeps the slider text whose \<^verbatim>\<open>parseFloat\<close> is the
  master gain (\<open>None\<close> before the bus exists).
\<close>

record mixer =
  players :: "(string \<times> player) list"
  instrumentButtons :: "(string \<times> element) list"
  instrumentStates :: "(string \<times> bool) list"
  currentBeat :: int
  beatCounter :: int
  beatDisplay :: "element list"
  transport :: transport_state
  contextRunning :: bool
  volumeSlider :: string
  masterVolume :: "string option"
  playPauseText :: string
  messageText :: string
  messageBox :: "string list"
  console :: "log list"

text \<open>
  What the static page and the browser provide when the script starts; the HTML is not
  part of the sources, so these are parameters.
\<close>

record page =
  slider_value :: string
  play_pause_text :: string
  message_text :: string
  message_box_classes :: "string list"
  context_running :: bool

definition initial :: "page \<Rightarrow> mixer" where
  "initial pg =
    \<lparr>players = [], instrumentButtons = [], instrumentStates = [],
     currentBeat = 0, beatCounter = 0, beatDisplay = [],
     transport = Stopped, contextRunning = context_running pg,
     volumeSlider = slider_value pg, masterVolume = None,
     playPauseText = play_pause_text pg,
     messageText = message_text pg, messageBox = message_box_classes pg,
     console = []\<rparr>"

section \<open>JavaScript primitives\<close>

text \<open>A dictionary entry used as a condition: \<^verbatim>\<open>undefined\<close> and \<^verbatim>\<open>false\<close> are falsy.\<close>

definition truthy :: "bool option \<Rightarrow> bool" where
  "truthy x = (x = Some True)"

text \<open>
  The remainder operator \<^verbatim>\<open>%\<close> on integers: the result has the sign of the dividend.
  (A divisor 0 gives \<^verbatim>\<open>NaN\<close> in JavaScript; the only divisor of the scripts is
  \<^verbatim>\<open>totalBeats\<close>, which is 8.)
\<close>

definition js_rem :: "int \<Rightarrow> int \<Rightarrow> int" where
  "js_rem a b = sgn a * (\<bar>a\<bar> mod \<bar>b\<bar>)"

text \<open>An integer inside a template literal: its decimal digits.\<close>

fun decimal :: "nat \<Rightarrow> string" where
  "decimal n =
    (if n < 10 then [char_of (48 + n)] else decimal (n div 10) @ [char_of (48 + n mod 10)])"

declare decimal.simps [simp del]

definition num_string :: "int \<Rightarrow> string" where
  "num_string i = (if i < 0 then CHR ''-'' # decimal (nat (- i)) else decimal (nat i))"

text \<open>\<^verbatim>\<open>toLowerCase\<close> on the ASCII letters (the instrument names are ASCII).\<close>

definition lower_char :: "char \<Rightarrow> char" where
  "lower_char c =
    (let k = (of_char c :: nat) in if 65 \<le> k \<and> k \<le> 90 then char_of (k + 32) else c)"

definition toLowerCase :: "string \<Rightarrow> string" where
  "toLowerCase s = map lower_char s"

section \<open>The functions of the script\<close>

definition showMessageBox :: "string \<Rightarrow> mixer \<Rightarrow> mixer" where
  "showMessageBox message s =
    s\<lparr>messageText := message, messageBox := classList_remove (messageBox s) ''hidden''\<rparr>"

definition hideMessageBox :: "mixer \<Rightarrow> mixer" where
  "hideMessageBox s = s\<lparr>messageBox := classList_add (messageBox s) [''hidden'']\<rparr>"

text \<open>
  The button of a failed instrument: \<^verbatim>\<open>disabled = true\<close>, \<^verbatim>\<open>'active'\<close> removed,
  \<^verbatim>\<open>'opacity-50'\<close> and \<^verbatim>\<open>'cursor-not-allowed'\<close> added.
\<close>

definition disable_button :: "element \<Rightarrow> element" where
  "disable_button b =
    b\<lparr>disabled := True,
      classList := classList_add (classList_remove (classList b) ''active'')
                     [''opacity-50'', ''cursor-not-allowed'']\<rparr>"

text \<open>
  The body of the loop of \<^verbatim>\<open>initializeAudio\<close> for one instrument. \<open>loadOk u\<close> says
  whether the \<^verbatim>\<open>try\<close> block for the url \<open>u\<close> runs to its end (the engine loads the
  file) or throws; the \<^verbatim>\<open>catch\<close> block is the other branch. Only the second variant
  calls \<^verbatim>\<open>showMessageBox\<close>.
\<close>

definition failure_message :: "instrument \<Rightarrow> string" where
  "failure_message i =
    ''Failed to load audio for '' @ name i @ ''. Please ensure '' @ [CHR 0x27] @ url i
      @ [CHR 0x27] @ '' is in the correct folder and accessible.''"

definition load_instrument ::
  "variant \<Rightarrow> (string \<Rightarrow> string) \<Rightarrow> (string \<Rightarrow> bool) \<Rightarrow> instrument \<Rightarrow> mixer \<Rightarrow> mixer" where
  "load_instrument v hname loadOk i s =
    (if loadOk (url i) then
       s\<lparr>players := AList.update (name i) (new_player hname (url i)) (players s),
         instrumentStates := AList.update (name i) True (instrumentStates s),
         console := console s @ [Log (''Loaded '' @ name i @ '' from '' @ url i)]\<rparr>
     else
       (let s1 = s\<lparr>console := console s
                      @ [Error (''Error loading '' @ name i @ '' from '' @ url i @ '':'')]\<rparr>;
            s2 = (if v = Part000 then showMessageBox (failure_message i) s1 else s1)
        in s2\<lparr>instrumentStates := AList.update (name i) False (instrumentStates s2),
              instrumentButtons :=
                AList.map_entry (name i) disable_button (instrumentButtons s2)\<rparr>))"

fun initializeAudio_loop ::
  "variant \<Rightarrow> (string \<Rightarrow> string) \<Rightarrow> (string \<Rightarrow> bool) \<Rightarrow> instrument list \<Rightarrow> mixer \<Rightarrow> mixer" where
  "initializeAudio_loop v hname loadOk [] s = s"
| "initializeAudio_loop v hname loadOk (i # is) s =
    initializeAudio_loop v hname loadOk is (load_instrument v hname loadOk i s)"

text \<open>
  \<^verbatim>\<open>initializeAudio\<close>: the master bus, the loading loop, the master gain, and the beat
  loop with its captured counter set to 0. The tempo and loop length it sets on the
  engine's transport are configuration of the engine and have no field here. This is the
  run in which no event is handled at an \<^verbatim>\<open>await player.loaded\<close>;
  \<open>initializeAudio_awaiting\<close> below is the run with such events.
\<close>

definition initializeAudio ::
  "variant \<Rightarrow> (string \<Rightarrow> string) \<Rightarrow> (string \<Rightarrow> bool) \<Rightarrow> mixer \<Rightarrow> mixer" where
  "initializeAudio v hname loadOk s =
    (let s1 = s\<lparr>masterVolume := Some (volumeSlider s)\<rparr>;
         s2 = initializeAudio_loop v hname loadOk instruments s1
     in s2\<lparr>masterVolume := Some (volumeSlider s2), beatCounter := 0\<rparr>)"

text \<open>
  \<^verbatim>\<open>createInstrumentButtons\<close>: one button per instrument, stored under the instrument's
  name. The button is also appended to the page and gets \<^verbatim>\<open>dataset.instrument\<close>; nothing
  reads either, and its click listener is the event \<open>ToggleInstrument\<close> below.
\<close>

definition new_button :: "instrument \<Rightarrow> element" where
  "new_button i =
    \<lparr>elem_id = ''btn-'' @ toLowerCase (name i), textContent = name i, disabled = False,
     classList = classList_add []
       [''instrument-button'', ''px-6'', ''py-3'', ''rounded-xl'', ''text-lg'',
        ''font-semibold'', ''shadow-md'', ''hover:shadow-lg'', ''focus:outline-none'',
        ''focus:ring-2'', ''focus:ring-blue-300'', ''active'']\<rparr>"

fun createInstrumentButtons_loop :: "instrument list \<Rightarrow> mixer \<Rightarrow> mixer" where
  "createInstrumentButtons_loop [] s = s"
| "createInstrumentButtons_loop (i # is) s =
    createInstrumentButtons_loop is
      (s\<lparr>instrumentButtons := AList.update (name i) (new_button i) (instrumentButtons s)\<rparr>)"

definition createInstrumentButtons :: "mixer \<Rightarrow> mixer" where
  "createInstrumentButtons s = createInstrumentButtons_loop instruments s"

definition new_beat_span :: "int \<Rightarrow> element" where
  "new_beat_span i =
    \<lparr>elem_id = ''beat-'' @ num_string i, textContent = num_string i, disabled = False,
     classList = classList_add [] [''beat-indicator'']\<rparr>"

function createBeatIndicators_loop :: "int \<Rightarrow> mixer \<Rightarrow> mixer" where
  "createBeatIndicators_loop i s =
    (if i \<le> totalBeats
     then createBeatIndicators_loop (i + 1) (s\<lparr>beatDisplay := beatDisplay s @ [new_beat_span i]\<rparr>)
     else s)"
  by pat_completeness auto
termination
  by (relation "measure (\<lambda>(i, s). nat (totalBeats + 1 - i))") auto

declare createBeatIndicators_loop.simps [simp del]

definition createBeatIndicators :: "mixer \<Rightarrow> mixer" where
  "createBeatIndicators s = createBeatIndicators_loop 1 s"

text \<open>
  \<^verbatim>\<open>toggleInstrument\<close>. With a player but no button, \<^verbatim>\<open>button.disabled\<close> reads a property
  of \<^verbatim>\<open>undefined\<close> and throws.
\<close>

definition toggleInstrument :: "string \<Rightarrow> mixer \<Rightarrow> error + mixer" where
  "toggleInstrument instrumentName s =
    (case map_of (players s) instrumentName of
       None \<Rightarrow> Inr s
     | Some player \<Rightarrow>
        (case map_of (instrumentButtons s) instrumentName of
           None \<Rightarrow> Inl TypeError
         | Some button \<Rightarrow>
            if disabled button then Inr s
            else
              (let st = \<not> truthy (map_of (instrumentStates s) instrumentName);
                   s1 = s\<lparr>instrumentStates :=
                           AList.update instrumentName st (instrumentStates s)\<rparr>
               in if st then
                    Inr (s1\<lparr>players :=
                              AList.map_entry instrumentName (\<lambda>p. p\<lparr>volume := Db 0\<rparr>)
                                (players s1),
                            instrumentButtons :=
                              AList.map_entry instrumentName
                                (\<lambda>b. b\<lparr>classList := classList_add (classList b) [''active'']\<rparr>)
                                (instrumentButtons s1)\<rparr>)
                  else
                    Inr (s1\<lparr>players :=
                              AList.map_entry instrumentName (\<lambda>p. p\<lparr>volume := NegInfinity\<rparr>)
                                (players s1),
                            instrumentButtons :=
                              AList.map_entry instrumentName
                                (\<lambda>b. b\<lparr>classList := classList_remove (classList b) ''active''\<rparr>)
                                (instrumentButtons s1)\<rparr>))))"

text \<open>
  \<^verbatim>\<open>updateBeatDisplay\<close>. The document is searched for the class \<^verbatim>\<open>beat-indicator\<close> and for
  the id \<^verbatim>\<open>beat-N\<close>; the instrument buttons carry neither (their ids start with
  \<^verbatim>\<open>btn-\<close>), so the search runs over the children of the beat display.
  \<^verbatim>\<open>getElementById\<close> returns the first element with the id.
\<close>

fun update_by_id :: "string \<Rightarrow> (element \<Rightarrow> element) \<Rightarrow> element list \<Rightarrow> element list" where
  "update_by_id i f [] = []"
| "update_by_id i f (e # es) = (if elem_id e = i then f e # es else e # update_by_id i f es)"

definition updateBeatDisplay :: "int \<Rightarrow> mixer \<Rightarrow> mixer" where
  "updateBeatDisplay beat s =
    (let cleared =
           map (\<lambda>indicator.
                  if ''beat-indicator'' \<in> set (classList indicator)
                  then indicator\<lparr>classList := classList_remove (classList indicator) ''current''\<rparr>
                  else indicator)
               (beatDisplay s)
     in s\<lparr>beatDisplay :=
            update_by_id (''beat-'' @ num_string beat)
              (\<lambda>e. e\<lparr>classList := classList_add (classList e) [''current'']\<rparr>) cleared\<rparr>)"

text \<open>The callback of \<^verbatim>\<open>beatLoop\<close>, which the engine calls once per eighth note.\<close>

definition beatLoop_callback :: "mixer \<Rightarrow> mixer" where
  "beatLoop_callback s =
    (let s1 = s\<lparr>currentBeat := js_rem (beatCounter s) totalBeats + 1\<rparr>;
         s2 = updateBeatDisplay (currentBeat s1) s1
     in s2\<lparr>beatCounter := js_rem (beatCounter s2 + 1) totalBeats\<rparr>)"

text \<open>\<^verbatim>\<open>Object.values(players).forEach(...)\<close> with a callback that mutates the handle.\<close>

definition forEach_player :: "(player \<Rightarrow> player) \<Rightarrow> mixer \<Rightarrow> mixer" where
  "forEach_player f s = s\<lparr>players := map (\<lambda>(k, p). (k, f p)) (players s)\<rparr>"

text \<open>\<^verbatim>\<open>togglePlayPause\<close> of \<^verbatim>\<open>mixer.js\<close>.\<close>

definition togglePlayPause_mixer :: "mixer \<Rightarrow> mixer" where
  "togglePlayPause_mixer s =
    (if transport s = Started then
       forEach_player (\<lambda>player. if isPlaying player then pause player else player)
         (s\<lparr>transport := Paused, playPauseText := ''Play''\<rparr>)
     else
       forEach_player (\<lambda>player. if \<not> isPlaying player then start player else player)
         (s\<lparr>transport := Started, playPauseText := ''Pause''\<rparr>))"

text \<open>
  \<^verbatim>\<open>togglePlayPause\<close> of the second variant. It awaits \<^verbatim>\<open>Tone.start()\<close> when the audio
  context is not running; the model runs the function in one piece.
\<close>

definition togglePlayPause_part000 :: "mixer \<Rightarrow> mixer" where
  "togglePlayPause_part000 s =
    (if transport s = Started then
       forEach_player (\<lambda>player. if isPlaying player then pause player else player)
         (s\<lparr>transport := Paused, playPauseText := ''Play''\<rparr>)
     else
       (let s1 = (if \<not> contextRunning s
                  then s\<lparr>contextRunning := True,
                         console := console s @ [Log ''AudioContext resumed from togglePlayPause'']\<rparr>
                  else s)
        in forEach_player
             (\<lambda>player. if \<not> isPlaying player
                            \<and> truthy (map_of (instrumentStates s1) (pname player))
                        then start player else player)
             (s1\<lparr>transport := Started, playPauseText := ''Pause''\<rparr>)))"

definition togglePlayPause :: "variant \<Rightarrow> mixer \<Rightarrow> mixer" where
  "togglePlayPause v s =
    (case v of Mixer \<Rightarrow> togglePlayPause_mixer s | Part000 \<Rightarrow> togglePlayPause_part000 s)"

text \<open>The loop at the end of \<^verbatim>\<open>window.onload\<close>, for one instrument.\<close>

definition onload_button :: "instrument \<Rightarrow> mixer \<Rightarrow> mixer" where
  "onload_button i s =
    (case map_of (instrumentButtons s) (name i) of
       None \<Rightarrow> s
     | Some button \<Rightarrow>
        if truthy (map_of (instrumentStates s) (name i)) then
          s\<lparr>instrumentButtons :=
              AList.map_entry (name i)
                (\<lambda>b. b\<lparr>classList := classList_add (classList b) [''active'']\<rparr>)
                (instrumentButtons s),
            players := AList.map_entry (name i) (\<lambda>p. p\<lparr>volume := Db 0\<rparr>) (players s)\<rparr>
        else
          s\<lparr>instrumentButtons := AList.map_entry (name i) disable_button (instrumentButtons s),
            players := AList.map_entry (name i) (\<lambda>p. p\<lparr>volume := NegInfinity\<rparr>) (players s)\<rparr>)"

fun onload_loop :: "instrument list \<Rightarrow> mixer \<Rightarrow> mixer" where
  "onload_loop [] s = s"
| "onload_loop (i # is) s = onload_loop is (onload_button i s)"

text \<open>
  \<^verbatim>\<open>window.onload\<close> in the run in which no event is handled while the files load. The
  handler awaits \<^verbatim>\<open>initializeAudio\<close>, which awaits each load, and the buttons are
  created and wired before; the run with events handled at these awaits is
  \<open>window_onload_awaiting\<close> below, and the two agree when there is no such event.
\<close>

definition window_onload ::
  "variant \<Rightarrow> (string \<Rightarrow> string) \<Rightarrow> (string \<Rightarrow> bool) \<Rightarrow> mixer \<Rightarrow> mixer" where
  "window_onload v hname loadOk s =
    updateBeatDisplay 1
      (onload_loop instruments
        (initializeAudio v hname loadOk (createBeatIndicators (createInstrumentButtons s))))"

text \<open>The state in which the page waits for the user.\<close>

definition loaded_page ::
  "variant \<Rightarrow> (string \<Rightarrow> string) \<Rightarrow> (string \<Rightarrow> bool) \<Rightarrow> page \<Rightarrow> mixer" where
  "loaded_page v hname loadOk pg = window_onload v hname loadOk (initial pg)"

section \<open>Events after loading\<close>

text \<open>
  The handlers the script registers: a click on an instrument button, a click on the
  play button, a tick of the beat loop, an input on the volume slider, a mouse press
  anywhere, and (second variant) the OK button of the message box. The engine decides
  when the beat loop ticks; \<open>step\<close> lets it tick in any state, and lets
  \<^verbatim>\<open>toggleInstrument\<close> be called with any name, so that a session is any list of events.
  A handler that throws ends the session with the error.
\<close>

datatype event =
  ToggleInstrument string | PlayPause | BeatTick | VolumeInput string | MouseDown | MessageOk

definition mousedown :: "variant \<Rightarrow> mixer \<Rightarrow> mixer" where
  "mousedown v s =
    (if \<not> contextRunning s
     then s\<lparr>contextRunning := True,
            console := console s
              @ [Log (case v of Mixer \<Rightarrow> ''AudioContext started''
                      | Part000 \<Rightarrow> ''AudioContext started via document mousedown'')]\<rparr>
     else s)"

fun step :: "variant \<Rightarrow> event \<Rightarrow> mixer \<Rightarrow> error + mixer" where
  "step v (ToggleInstrument n) s = toggleInstrument n s"
| "step v PlayPause s = Inr (togglePlayPause v s)"
| "step v BeatTick s = Inr (beatLoop_callback s)"
| "step v (VolumeInput x) s = Inr (s\<lparr>volumeSlider := x, masterVolume := Some x\<rparr>)"
| "step v MouseDown s = Inr (mousedown v s)"
| "step v MessageOk s = Inr (case v of Mixer \<Rightarrow> s | Part000 \<Rightarrow> hideMessageBox s)"

fun run :: "variant \<Rightarrow> event list \<Rightarrow> mixer \<Rightarrow> error + mixer" where
  "run v [] s = Inr s"
| "run v (e # es) s = (case step v e s of Inl err \<Rightarrow> Inl err | Inr s' \<Rightarrow> run v es s')"

section \<open>Events while the files load\<close>

text \<open>
  \<^verbatim>\<open>window.onload\<close> creates the buttons, with their click listeners, before it awaits
  \<^verbatim>\<open>initializeAudio\<close>, and the listeners of the play button and of the mouse press are
  registered when the script starts. So while \<^verbatim>\<open>await player.loaded\<close> waits for a file,
  these handlers run. The listener of the volume slider, the beat loop and the listener of
  the OK button do not exist yet: moving the slider changes the value of the element only,
  and the last two events do nothing. A handler that throws ends alone; the exception of
  \<^verbatim>\<open>toggleInstrument\<close> is raised before it writes anything.
\<close>

fun handle_while_loading :: "variant \<Rightarrow> event \<Rightarrow> mixer \<Rightarrow> mixer" where
  "handle_while_loading v (ToggleInstrument n) s =
    (case toggleInstrument n s of Inl err \<Rightarrow> s | Inr s' \<Rightarrow> s')"
| "handle_while_loading v PlayPause s = togglePlayPause v s"
| "handle_while_loading v MouseDown s = mousedown v s"
| "handle_while_loading v (VolumeInput x) s = s\<lparr>volumeSlider := x\<rparr>"
| "handle_while_loading v BeatTick s = s"
| "handle_while_loading v MessageOk s = s"

fun handle_all :: "variant \<Rightarrow> event list \<Rightarrow> mixer \<Rightarrow> mixer" where
  "handle_all v [] s = s"
| "handle_all v (e # es) s = handle_all v es (handle_while_loading v e s)"

text \<open>
  The loading loop with the events \<open>awaiting (name i)\<close> handled while the file of the
  instrument \<open>i\<close> loads; the rest of the loop body for \<open>i\<close> runs after them. Then
  \<^verbatim>\<open>initializeAudio\<close> and \<^verbatim>\<open>window.onload\<close> around this loop, as above.
\<close>

fun initializeAudio_loop_awaiting ::
  "variant \<Rightarrow> (string \<Rightarrow> string) \<Rightarrow> (string \<Rightarrow> bool) \<Rightarrow> (string \<Rightarrow> event list)
    \<Rightarrow> instrument list \<Rightarrow> mixer \<Rightarrow> mixer" where
  "initializeAudio_loop_awaiting v hname loadOk awaiting [] s = s"
| "initializeAudio_loop_awaiting v hname loadOk awaiting (i # is) s =
    initializeAudio_loop_awaiting v hname loadOk awaiting is
      (load_instrument v hname loadOk i (handle_all v (awaiting (name i)) s))"

definition initializeAudio_awaiting ::
  "variant \<Rightarrow> (string \<Rightarrow> string) \<Rightarrow> (string \<Rightarrow> bool) \<Rightarrow> (string \<Rightarrow> event list)
    \<Rightarrow> mixer \<Rightarrow> mixer" where
  "initializeAudio_awaiting v hname loadOk awaiting s =
    (let s1 = s\<lparr>masterVolume := Some (volumeSlider s)\<rparr>;
         s2 = initializeAudio_loop_awaiting v hname loadOk awaiting instruments s1
     in s2\<lparr>masterVolume := Some (volumeSlider s2), beatCounter := 0\<rparr>)"

definition window_onload_awaiting ::
  "variant \<Rightarrow> (string \<Rightarrow> string) \<Rightarrow> (string \<Rightarrow> bool) \<Rightarrow> (string \<Rightarrow> event list)
    \<Rightarrow> mixer \<Rightarrow> mixer" where
  "window_onload_awaiting v hname loadOk awaiting s =
    updateBeatDisplay 1
      (onload_loop instruments
        (initializeAudio_awaiting v hname loadOk awaiting
          (createBeatIndicators (createInstrumentButtons s))))"

text \<open>
  The state inside \<^verbatim>\<open>window.onload\<close> in which \<^verbatim>\<open>await initializeAudio()\<close> returns, before
  the loop over the buttons; and the state in which \<^verbatim>\<open>window.onload\<close> ends.
\<close>

definition audio_initialized_awaiting ::
  "variant \<Rightarrow> (string \<Rightarrow> string) \<Rightarrow> (string \<Rightarrow> bool) \<Rightarrow> (string \<Rightarrow> event list)
    \<Rightarrow> page \<Rightarrow> mixer" where
  "audio_initialized_awaiting v hname loadOk awaiting pg =
    initializeAudio_awaiting v hname loadOk awaiting
      (createBeatIndicators (createInstrumentButtons (initial pg)))"

definition loaded_page_awaiting ::
  "variant \<Rightarrow> (string \<Rightarrow> string) \<Rightarrow> (string \<Rightarrow> bool) \<Rightarrow> (string \<Rightarrow> event list)
    \<Rightarrow> page \<Rightarrow> mixer" where
  "loaded_page_awaiting v hname loadOk awaiting pg =
    window_onload_awaiting v hname loadOk awaiting (initial pg)"

text \<open>The instruments whose files load after the one of \<open>i\<close>.\<close>

definition loaded_after :: "instrument \<Rightarrow> instrument list" where
  "loaded_after i = tl (dropWhile (\<lambda>j. j \<noteq> i) instruments)"

section \<open>Proof vocabulary\<close>

text \<open>
  What the three dictionaries hold for one name (\<open>view\<close>), what each function of the
  script does to that triple, and the invariants of a session. These are read off the
  definitions above and serve the proofs.
\<close>

definition view :: "string \<Rightarrow> mixer \<Rightarrow> player option \<times> element option \<times> bool option" where
  "view n s = (map_of (players s) n, map_of (instrumentButtons s) n, map_of (instrumentStates s) n)"

definition create_view :: "instrument \<Rightarrow> player option \<times> element option \<times> bool option
    \<Rightarrow> player option \<times> element option \<times> bool option" where
  "create_view i x = (case x of (p, b, st) \<Rightarrow> (p, Some (new_button i), st))"

definition load_view :: "(string \<Rightarrow> string) \<Rightarrow> (string \<Rightarrow> bool) \<Rightarrow> instrument
    \<Rightarrow> player option \<times> element option \<times> bool option
    \<Rightarrow> player option \<times> element option \<times> bool option" where
  "load_view hname loadOk i x =
    (case x of (p, b, st) \<Rightarrow>
       if loadOk (url i) then (Some (new_player hname (url i)), b, Some True)
       else (p, map_option disable_button b, Some False))"

definition onload_view :: "player option \<times> element option \<times> bool option
    \<Rightarrow> player option \<times> element option \<times> bool option" where
  "onload_view x =
    (case x of (p, b, st) \<Rightarrow>
       (case b of None \<Rightarrow> (p, b, st)
        | Some button \<Rightarrow>
           if truthy st
           then (map_option (\<lambda>p. p\<lparr>volume := Db 0\<rparr>) p,
                 Some (button\<lparr>classList := classList_add (classList button) [''active'']\<rparr>), st)
           else (map_option (\<lambda>p. p\<lparr>volume := NegInfinity\<rparr>) p,
                 Some (disable_button button), st)))"

definition toggle_view :: "player option \<times> element option \<times> bool option
    \<Rightarrow> player option \<times> element option \<times> bool option" where
  "toggle_view x =
    (case x of (p, b, st) \<Rightarrow>
       (case p of None \<Rightarrow> x
        | Some pl \<Rightarrow>
           (case b of None \<Rightarrow> x
            | Some bt \<Rightarrow>
               if disabled bt then x
               else if \<not> truthy st
               then (Some (pl\<lparr>volume := Db 0\<rparr>),
                     Some (bt\<lparr>classList := classList_add (classList bt) [''active'']\<rparr>),
                     Some True)
               else (Some (pl\<lparr>volume := NegInfinity\<rparr>),
                     Some (bt\<lparr>classList := classList_remove (classList bt) ''active''\<rparr>),
                     Some False))))"

definition view_ok :: "player option \<times> element option \<times> bool option \<Rightarrow> bool" where
  "view_ok x =
    (case x of (p, b, st) \<Rightarrow>
       (case p of None \<Rightarrow> True
        | Some pl \<Rightarrow>
           (case b of None \<Rightarrow> False
            | Some bt \<Rightarrow>
               \<not> disabled bt \<and>
               (case st of None \<Rightarrow> False
                | Some t \<Rightarrow>
                   if t then volume pl = Db 0 \<and> ''active'' \<in> set (classList bt)
                   else volume pl = NegInfinity \<and> ''active'' \<notin> set (classList bt)))))"

definition consistent :: "mixer \<Rightarrow> string \<Rightarrow> bool" where
  "consistent s n = view_ok (view n s)"

definition button_disabled :: "mixer \<Rightarrow> string \<Rightarrow> bool" where
  "button_disabled s n =
    (case map_of (instrumentButtons s) n of None \<Rightarrow> False | Some b \<Rightarrow> disabled b)"

definition display_ok :: "mixer \<Rightarrow> bool" where
  "display_ok s =
    (map elem_id (beatDisplay s) = map (\<lambda>i. ''beat-'' @ num_string i) [1..totalBeats]
     \<and> list_all (\<lambda>e. ''beat-indicator'' \<in> set (classList e)) (beatDisplay s))"

definition beat_ok :: "bool \<Rightarrow> mixer \<Rightarrow> bool" where
  "beat_ok ticked s =
    (if ticked
     then 1 \<le> currentBeat s \<and> currentBeat s \<le> 8 \<and> beatCounter s = currentBeat s mod 8
     else currentBeat s = 0 \<and> beatCounter s = 0)"

section \<open>A concrete session\<close>

text \<open>
  A page and a session used to evaluate the functions: the engine names every handle
  \<^verbatim>\<open>Player\<close>, and \<^verbatim>\<open>bass.wav\<close> is the one file that fails to load. \<open>demo_run v es\<close> is
  the state after the events \<open>es\<close>; no handler throws in a session (lemma
  \<open>demo_run_eq\<close> below).
\<close>

definition demo_page :: page where
  "demo_page =
    \<lparr>slider_value = ''-10'', play_pause_text = ''Play'', message_text = [],
     message_box_classes = [''hidden''], context_running = False\<rparr>"

definition demo_run :: "variant \<Rightarrow> event list \<Rightarrow> mixer" where
  "demo_run v es =
    (case run v es (loaded_page v (\<lambda>u. ''Player'') (\<lambda>u. u \<noteq> ''bass.wav'') demo_page) of
       Inr s \<Rightarrow> s
     | Inl err \<Rightarrow> initial demo_page)"

text \<open>
  The same page with one event while the files load: the Clave button is clicked while
  the file of Conga, the next instrument, loads.
\<close>

definition demo_awaiting :: "string \<Rightarrow> event list" where
  "demo_awaiting n = (if n = ''Conga'' then [ToggleInstrument ''Clave''] else [])"

definition demo_clicked_audio :: "variant \<Rightarrow> mixer" where
  "demo_clicked_audio v =
    audio_initialized_awaiting v (\<lambda>u. ''Player'') (\<lambda>u. u \<noteq> ''bass.wav'') demo_awaiting demo_page"

definition demo_clicked :: "variant \<Rightarrow> mixer" where
  "demo_clicked v =
    loaded_page_awaiting v (\<lambda>u. ''Player'') (\<lambda>u. u \<noteq> ''bass.wav'') demo_awaiting demo_page"

section \<open>The three dictionaries, name by name\<close>

lemma fold_view:
  assumes body: "\<And>i s. view n (body i s) = (if name i = n then g i (view n s) else view n s)"
    and dist: "distinct (map name is)"
  shows "view n (fold body is s) =
    (case find (\<lambda>i. name i = n) is of None \<Rightarrow> view n s | Some i \<Rightarrow> g i (view n s))"
  using dist
proof (induction "is" arbitrary: s)
  case Nil
  show ?case by simp
next
  case (Cons i "is")
  have tl: "view n (fold body is (body i s)) =
    (case find (\<lambda>i. name i = n) is of None \<Rightarrow> view n (body i s)
     | Some j \<Rightarrow> g j (view n (body i s)))"
    using Cons by simp
  show ?case
  proof (cases "name i = n")
    case True
    with Cons.prems have "n \<notin> name ` set is"
      by simp
    then have "find (\<lambda>i. name i = n) is = None"
      by (auto simp: find_None_iff)
    with True tl show ?thesis by (simp add: body)
  next
    case False
    with tl show ?thesis by (simp add: body split: option.splits)
  qed
qed

lemma createInstrumentButtons_loop_fold:
  "createInstrumentButtons_loop is s =
     fold (\<lambda>i s. s\<lparr>instrumentButtons := AList.update (name i) (new_button i) (instrumentButtons s)\<rparr>) is s"
  by (induction "is" arbitrary: s) simp_all

lemma initializeAudio_loop_fold:
  "initializeAudio_loop v hname loadOk is s = fold (load_instrument v hname loadOk) is s"
  by (induction "is" arbitrary: s) simp_all

lemma onload_loop_fold: "onload_loop is s = fold onload_button is s"
  by (induction "is" arbitrary: s) simp_all

lemma view_create_body:
  "view n (s\<lparr>instrumentButtons := AList.update (name i) (new_button i) (instrumentButtons s)\<rparr>)
     = (if name i = n then create_view i (view n s) else view n s)"
  by (simp add: view_def create_view_def update_conv')

lemma view_load_instrument:
  "view n (load_instrument v hname loadOk i s)
     = (if name i = n then load_view hname loadOk i (view n s) else view n s)"
  by (simp add: view_def load_view_def load_instrument_def showMessageBox_def Let_def
      update_conv' map_of_map_entry split: option.splits)

lemma view_onload_button:
  "view n (onload_button i s) = (if name i = n then onload_view (view n s) else view n s)"
  by (cases "name i = n")
     (auto simp: view_def onload_view_def onload_button_def map_of_map_entry split: option.splits)

lemma distinct_instruments: "distinct (map name instruments)"
  by (simp add: instruments_def)

lemma find_by_name:
  "distinct (map name is) \<Longrightarrow> i \<in> set is \<Longrightarrow> find (\<lambda>j. name j = name i) is = Some i"
  by (induction "is") auto

lemma find_instrument:
  "i \<in> set instruments \<Longrightarrow> find (\<lambda>j. name j = name i) instruments = Some i"
  by (rule find_by_name [OF distinct_instruments])

lemma find_no_instrument:
  "n \<notin> name ` set instruments \<Longrightarrow> find (\<lambda>j. name j = n) instruments = None"
  by (force simp: find_None_iff)

lemma createBeatIndicators_loop_fields:
  "players (createBeatIndicators_loop i s) = players s
   \<and> instrumentButtons (createBeatIndicators_loop i s) = instrumentButtons s
   \<and> instrumentStates (createBeatIndicators_loop i s) = instrumentStates s
   \<and> currentBeat (createBeatIndicators_loop i s) = currentBeat s
   \<and> beatCounter (createBeatIndicators_loop i s) = beatCounter s
   \<and> beatDisplay (createBeatIndicators_loop i s) = beatDisplay s @ map new_beat_span [i..totalBeats]"
proof (induction i s rule: createBeatIndicators_loop.induct)
  case (1 i s)
  show ?case
  proof (cases "i \<le> totalBeats")
    case True
    with 1 show ?thesis
      by (subst (1 2 3 4 5 6) createBeatIndicators_loop.simps) (simp add: upto_rec1 [of i])
  next
    case False
    then show ?thesis
      by (subst (1 2 3 4 5 6) createBeatIndicators_loop.simps) simp
  qed
qed

lemma view_createBeatIndicators: "view n (createBeatIndicators s) = view n s"
  by (simp add: view_def createBeatIndicators_def createBeatIndicators_loop_fields)

lemma view_updateBeatDisplay: "view n (updateBeatDisplay b s) = view n s"
  by (simp add: view_def updateBeatDisplay_def)

lemma view_initial: "view n (initial pg) = (None, None, None)"
  by (simp add: view_def initial_def)

lemma view_createInstrumentButtons:
  "view n (createInstrumentButtons s) =
    (case find (\<lambda>i. name i = n) instruments of None \<Rightarrow> view n s
     | Some i \<Rightarrow> create_view i (view n s))"
  unfolding createInstrumentButtons_def createInstrumentButtons_loop_fold
  by (rule fold_view [where g = create_view, OF view_create_body distinct_instruments])

lemma view_initializeAudio:
  "view n (initializeAudio v hname loadOk s) =
    (case find (\<lambda>i. name i = n) instruments of None \<Rightarrow> view n s
     | Some i \<Rightarrow> load_view hname loadOk i (view n s))"
proof -
  have "view n (initializeAudio v hname loadOk s)
      = view n (fold (load_instrument v hname loadOk) instruments
                  (s\<lparr>masterVolume := Some (volumeSlider s)\<rparr>))"
    by (simp add: initializeAudio_def Let_def initializeAudio_loop_fold view_def)
  also have "\<dots> = (case find (\<lambda>i. name i = n) instruments of
        None \<Rightarrow> view n (s\<lparr>masterVolume := Some (volumeSlider s)\<rparr>)
      | Some i \<Rightarrow> load_view hname loadOk i (view n (s\<lparr>masterVolume := Some (volumeSlider s)\<rparr>)))"
    by (rule fold_view [where g = "load_view hname loadOk", OF view_load_instrument
          distinct_instruments])
  also have "view n (s\<lparr>masterVolume := Some (volumeSlider s)\<rparr>) = view n s"
    by (simp add: view_def)
  finally show ?thesis .
qed

lemma view_onload_loop:
  "view n (onload_loop instruments s) =
    (case find (\<lambda>i. name i = n) instruments of None \<Rightarrow> view n s
     | Some i \<Rightarrow> onload_view (view n s))"
  unfolding onload_loop_fold
  by (rule fold_view [where g = "\<lambda>i. onload_view", OF view_onload_button distinct_instruments])

lemma view_loaded_page:
  "view n (loaded_page v hname loadOk pg) =
    (case find (\<lambda>i. name i = n) instruments of None \<Rightarrow> (None, None, None)
     | Some i \<Rightarrow> onload_view (load_view hname loadOk i (None, Some (new_button i), None)))"
  by (simp add: loaded_page_def window_onload_def view_updateBeatDisplay view_onload_loop
      view_initializeAudio view_createBeatIndicators view_createInstrumentButtons view_initial
      create_view_def split: option.splits)

lemma new_button_fields:
  "\<not> disabled (new_button i)" "''active'' \<in> set (classList (new_button i))"
  "disabled (disable_button b)" "''active'' \<notin> set (classList (disable_button b))"
  by (simp_all add: new_button_def disable_button_def classList_remove_def)

lemma loaded_page_view_ok:
  assumes "i \<in> set instruments" and "loadOk (url i)"
  shows "view (name i) (loaded_page v hname loadOk pg)
    = (Some (new_player hname (url i)), Some (new_button i), Some True)"
  using assms
  by (simp add: view_loaded_page find_instrument load_view_def onload_view_def truthy_def
      new_player_def new_button_def)

lemma loaded_page_view_failed:
  assumes "i \<in> set instruments" and "\<not> loadOk (url i)"
  shows "view (name i) (loaded_page v hname loadOk pg)
    = (None, Some (disable_button (disable_button (new_button i))), Some False)"
  using assms
  by (simp add: view_loaded_page find_instrument load_view_def onload_view_def truthy_def)

section \<open>The handlers on one name\<close>

lemma forEach_player_fields:
  "instrumentButtons (forEach_player f s) = instrumentButtons s"
  "instrumentStates (forEach_player f s) = instrumentStates s"
  "currentBeat (forEach_player f s) = currentBeat s"
  "beatCounter (forEach_player f s) = beatCounter s"
  "beatDisplay (forEach_player f s) = beatDisplay s"
  "transport (forEach_player f s) = transport s"
  "length (players (forEach_player f s)) = length (players s)"
  "map fst (players (forEach_player f s)) = map fst (players s)"
  by (simp_all add: forEach_player_def case_prod_unfold)

lemma forEach_player_nth:
  "i < length (players s) \<Longrightarrow>
     players (forEach_player f s) ! i = (fst (players s ! i), f (snd (players s ! i)))"
  by (simp add: forEach_player_def case_prod_unfold)

lemma forEach_player_map_of:
  "map_of (players (forEach_player f s)) n = map_option f (map_of (players s) n)"
  by (simp add: forEach_player_def map_of_map)

lemma toggleInstrument_view:
  assumes "toggleInstrument m s = Inr s'"
  shows "view n s' = (if m = n then toggle_view (view n s) else view n s)"
  using assms
  by (cases "m = n")
     (auto simp: toggleInstrument_def view_def toggle_view_def Let_def update_conv'
        map_of_map_entry split: option.splits if_splits)

lemma togglePlayPause_view:
  "\<exists>f. (\<forall>p. volume (f p) = volume p \<and> pname (f p) = pname p)
     \<and> view n (togglePlayPause v s)
         = (map_option f (map_of (players s) n), map_of (instrumentButtons s) n,
            map_of (instrumentStates s) n)"
proof (cases "transport s = Started")
  case True
  let ?f = "\<lambda>player. if isPlaying player then pause player else player"
  have "view n (togglePlayPause v s)
         = (map_option ?f (map_of (players s) n), map_of (instrumentButtons s) n,
            map_of (instrumentStates s) n)"
    using True
    by (cases v)
       (simp_all add: togglePlayPause_def togglePlayPause_mixer_def togglePlayPause_part000_def
          view_def forEach_player_fields forEach_player_map_of)
  moreover have "\<forall>p. volume (?f p) = volume p \<and> pname (?f p) = pname p"
    by (simp add: pause_def)
  ultimately show ?thesis by (intro exI [of _ ?f] conjI)
next
  case False
  show ?thesis
  proof (cases v)
    case Mixer
    let ?f = "\<lambda>player. if \<not> isPlaying player then start player else player"
    have "view n (togglePlayPause v s)
         = (map_option ?f (map_of (players s) n), map_of (instrumentButtons s) n,
            map_of (instrumentStates s) n)"
      using False Mixer
      by (simp add: togglePlayPause_def togglePlayPause_mixer_def
          view_def forEach_player_fields forEach_player_map_of)
    moreover have "\<forall>p. volume (?f p) = volume p \<and> pname (?f p) = pname p"
      by (simp add: start_def)
    ultimately show ?thesis by (intro exI [of _ ?f] conjI)
  next
    case Part000
    let ?f = "\<lambda>player. if \<not> isPlaying player
                            \<and> truthy (map_of (instrumentStates s) (pname player))
                        then start player else player"
    have "view n (togglePlayPause v s)
         = (map_option ?f (map_of (players s) n), map_of (instrumentButtons s) n,
            map_of (instrumentStates s) n)"
      using False Part000
      by (simp add: togglePlayPause_def togglePlayPause_part000_def Let_def
          view_def forEach_player_fields forEach_player_map_of)
    moreover have "\<forall>p. volume (?f p) = volume p \<and> pname (?f p) = pname p"
      by (simp add: start_def)
    ultimately show ?thesis by (intro exI [of _ ?f] conjI)
  qed
qed

lemma view_beatLoop_callback: "view n (beatLoop_callback s) = view n s"
  by (simp add: view_def beatLoop_callback_def updateBeatDisplay_def Let_def)

lemma view_mousedown: "view n (mousedown v s) = view n s"
  by (simp add: view_def mousedown_def)

lemma view_hideMessageBox: "view n (hideMessageBox s) = view n s"
  by (simp add: view_def hideMessageBox_def)

lemma toggleInstrument_noop:
  "map_of (players s) n = None \<or> button_disabled s n \<Longrightarrow> toggleInstrument n s = Inr s"
  by (auto simp: toggleInstrument_def button_disabled_def split: option.splits)

lemma toggleInstrument_succeeds:
  "map_of (players s) n = Some p \<Longrightarrow> map_of (instrumentButtons s) n = Some b \<Longrightarrow>
     \<exists>s'. toggleInstrument n s = Inr s'"
  by (simp add: toggleInstrument_def Let_def)

section \<open>Invariants of a session\<close>

lemma run_invariant:
  assumes step: "\<And>e s s'. P s \<Longrightarrow> step v e s = Inr s' \<Longrightarrow> P s'"
  shows "P s \<Longrightarrow> run v es s = Inr s' \<Longrightarrow> P s'"
proof (induction es arbitrary: s)
  case Nil
  then show ?case by simp
next
  case (Cons e es)
  then show ?case by (auto split: sum.splits dest: step)
qed

lemma view_ok_toggle_triple: "view_ok (p, b, st) \<Longrightarrow> view_ok (toggle_view (p, b, st))"
  by (cases p; cases b; cases st)
     (simp_all add: view_ok_def toggle_view_def truthy_def classList_remove_def)

lemma view_ok_toggle: "view_ok x \<Longrightarrow> view_ok (toggle_view x)"
  by (cases x) (simp add: view_ok_toggle_triple)

lemma view_ok_map_player:
  "\<forall>p. volume (f p) = volume p \<and> pname (f p) = pname p \<Longrightarrow>
     view_ok (map_option f p, b, st) = view_ok (p, b, st)"
  by (cases p) (auto simp: view_ok_def split: option.splits)

lemma step_consistent:
  assumes "consistent s n" and "step v e s = Inr s'"
  shows "consistent s' n"
proof (cases e)
  case (ToggleInstrument m)
  with assms show ?thesis
    by (auto simp: consistent_def toggleInstrument_view view_ok_toggle)
next
  case PlayPause
  obtain f where f: "\<forall>p. volume (f p) = volume p \<and> pname (f p) = pname p"
    and v: "view n (togglePlayPause v s)
         = (map_option f (map_of (players s) n), map_of (instrumentButtons s) n,
            map_of (instrumentStates s) n)"
    using togglePlayPause_view by blast
  from assms PlayPause have "s' = togglePlayPause v s" by simp
  with assms(1) v show ?thesis
    by (simp add: consistent_def view_ok_map_player [OF f]) (simp add: view_def)
next
  case BeatTick
  with assms show ?thesis by (auto simp: consistent_def view_beatLoop_callback)
next
  case (VolumeInput x)
  with assms show ?thesis by (auto simp: consistent_def view_def)
next
  case MouseDown
  with assms show ?thesis by (auto simp: consistent_def view_mousedown)
next
  case MessageOk
  with assms show ?thesis by (cases v) (auto simp: consistent_def view_hideMessageBox)
qed

lemma run_consistent:
  "consistent s n \<Longrightarrow> run v es s = Inr s' \<Longrightarrow> consistent s' n"
  by (rule run_invariant [where P = "\<lambda>s. consistent s n"]) (rule step_consistent)

lemma loaded_page_consistent: "consistent (loaded_page v hname loadOk pg) n"
  by (simp add: consistent_def view_loaded_page view_ok_def onload_view_def load_view_def
      new_player_def truthy_def new_button_fields split: option.splits)

lemma step_no_player:
  assumes "map_of (players s) n = None" and "step v e s = Inr s'"
  shows "map_of (players s') n = None"
proof (cases e)
  case (ToggleInstrument m)
  with assms have "view n s' = (if m = n then toggle_view (view n s) else view n s)"
    by (simp add: toggleInstrument_view)
  with assms(1) show ?thesis
    by (simp add: view_def toggle_view_def split: if_splits)
next
  case PlayPause
  obtain f where "view n (togglePlayPause v s)
         = (map_option f (map_of (players s) n), map_of (instrumentButtons s) n,
            map_of (instrumentStates s) n)"
    using togglePlayPause_view by blast
  with assms PlayPause show ?thesis by (auto simp: view_def)
next
  case BeatTick
  with assms view_beatLoop_callback [of n s] show ?thesis by (auto simp: view_def)
next
  case (VolumeInput x)
  with assms show ?thesis by auto
next
  case MouseDown
  with assms view_mousedown [of n v s] show ?thesis by (auto simp: view_def)
next
  case MessageOk
  with assms view_hideMessageBox [of n s] show ?thesis by (cases v) (auto simp: view_def)
qed

lemma run_no_player:
  "map_of (players s) n = None \<Longrightarrow> run v es s = Inr s' \<Longrightarrow> map_of (players s') n = None"
  by (rule run_invariant [where P = "\<lambda>s. map_of (players s) n = None"]) (rule step_no_player)

lemma step_button_disabled:
  assumes "button_disabled s n" and "step v e s = Inr s'"
  shows "button_disabled s' n"
proof (cases e)
  case (ToggleInstrument m)
  with assms have "view n s' = (if m = n then toggle_view (view n s) else view n s)"
    by (simp add: toggleInstrument_view)
  with assms(1) show ?thesis
    by (auto simp: button_disabled_def view_def toggle_view_def split: if_splits option.splits)
next
  case PlayPause
  obtain f where "view n (togglePlayPause v s)
         = (map_option f (map_of (players s) n), map_of (instrumentButtons s) n,
            map_of (instrumentStates s) n)"
    using togglePlayPause_view by blast
  with assms PlayPause show ?thesis by (auto simp: button_disabled_def view_def)
next
  case BeatTick
  with assms view_beatLoop_callback [of n s] show ?thesis
    by (auto simp: button_disabled_def view_def)
next
  case (VolumeInput x)
  with assms show ?thesis by (auto simp: button_disabled_def)
next
  case MouseDown
  with assms view_mousedown [of n v s] show ?thesis by (auto simp: button_disabled_def view_def)
next
  case MessageOk
  with assms view_hideMessageBox [of n s] show ?thesis
    by (cases v) (auto simp: button_disabled_def view_def)
qed

lemma run_button_disabled:
  "button_disabled s n \<Longrightarrow> run v es s = Inr s' \<Longrightarrow> button_disabled s' n"
  by (rule run_invariant [where P = "\<lambda>s. button_disabled s n"]) (rule step_button_disabled)

lemma step_total:
  assumes "\<forall>n. consistent s n"
  shows "\<exists>s'. step v e s = Inr s'"
proof (cases e)
  case (ToggleInstrument m)
  from assms have "consistent s m" by simp
  then show ?thesis
    using ToggleInstrument
    by (auto simp: consistent_def view_ok_def view_def toggleInstrument_def Let_def
        split: option.splits)
qed simp_all

lemma run_total:
  "\<forall>n. consistent s n \<Longrightarrow> \<exists>s'. run v es s = Inr s'"
proof (induction es arbitrary: s)
  case Nil
  show ?case by simp
next
  case (Cons e es)
  from step_total [OF Cons.prems] obtain s1 where s1: "step v e s = Inr s1"
    by blast
  with Cons.prems have "\<forall>n. consistent s1 n"
    by (blast intro: step_consistent)
  from Cons.IH [OF this] s1 show ?case by simp
qed

lemma run_loaded_page_total:
  "\<exists>s. run v es (loaded_page v hname loadOk pg) = Inr s"
  by (rule run_total) (simp add: loaded_page_consistent)

lemma demo_run_eq:
  "run v es (loaded_page v (\<lambda>u. ''Player'') (\<lambda>u. u \<noteq> ''bass.wav'') demo_page)
     = Inr (demo_run v es)"
  using run_loaded_page_total [of v es "\<lambda>u. ''Player''" "\<lambda>u. u \<noteq> ''bass.wav''" demo_page]
  by (auto simp: demo_run_def)

section \<open>The beat display\<close>

lemma beat_ids_distinct: "distinct (map (\<lambda>i. ''beat-'' @ num_string i) [1..totalBeats])"
  by code_simp

lemma update_by_id_ids:
  "(\<And>e. elem_id (f e) = elem_id e) \<Longrightarrow> map elem_id (update_by_id t f es) = map elem_id es"
  by (induction es) simp_all

lemma update_by_id_all:
  "list_all P es \<Longrightarrow> (\<And>e. P e \<Longrightarrow> P (f e)) \<Longrightarrow> list_all P (update_by_id t f es)"
  by (induction es) simp_all

lemma update_by_id_current:
  assumes "distinct (map elem_id es)" and "\<forall>e\<in>set es. c \<notin> set (classList e)"
    and "e \<in> set (update_by_id t (\<lambda>e. e\<lparr>classList := classList_add (classList e) [c]\<rparr>) es)"
  shows "(c \<in> set (classList e)) = (elem_id e = t)"
  using assms
proof (induction es)
  case Nil
  then show ?case by simp
next
  case (Cons a es)
  show ?case
  proof (cases "elem_id a = t")
    case True
    with Cons.prems show ?thesis by (auto simp: image_iff)
  next
    case False
    with Cons show ?thesis by auto
  qed
qed

lemma update_by_id_count:
  assumes "t \<in> set (map elem_id es)" and "\<forall>e\<in>set es. c \<notin> set (classList e)"
  shows "length (filter (\<lambda>e. c \<in> set (classList e))
           (update_by_id t (\<lambda>e. e\<lparr>classList := classList_add (classList e) [c]\<rparr>) es)) = 1"
  using assms
proof (induction es)
  case Nil
  then show ?case by simp
next
  case (Cons a es)
  show ?case
  proof (cases "elem_id a = t")
    case True
    with Cons.prems show ?thesis by (simp add: filter_empty_conv)
  next
    case False
    with Cons show ?thesis by simp
  qed
qed

lemma updateBeatDisplay_display_ok:
  assumes "display_ok s"
  shows "display_ok (updateBeatDisplay b s)"
proof -
  let ?g = "\<lambda>indicator. if ''beat-indicator'' \<in> set (classList indicator)
      then indicator\<lparr>classList := classList_remove (classList indicator) ''current''\<rparr>
      else indicator"
  have ids: "map elem_id (map ?g (beatDisplay s)) = map elem_id (beatDisplay s)"
    by (induction "beatDisplay s") (simp_all add: comp_def)
  have "list_all (\<lambda>e. ''beat-indicator'' \<in> set (classList e)) (map ?g (beatDisplay s))"
    using assms by (simp add: display_ok_def list_all_iff classList_remove_def)
  then have "list_all (\<lambda>e. ''beat-indicator'' \<in> set (classList e))
      (update_by_id (''beat-'' @ num_string b)
         (\<lambda>e. e\<lparr>classList := classList_add (classList e) [''current'']\<rparr>)
         (map ?g (beatDisplay s)))"
    by (rule update_by_id_all) simp
  with assms ids show ?thesis
    by (simp add: display_ok_def updateBeatDisplay_def Let_def update_by_id_ids)
qed

lemma updateBeatDisplay_marks_one:
  assumes ok: "display_ok s" and lo: "1 \<le> b" and hi: "b \<le> totalBeats"
  shows "length (filter (\<lambda>e. ''current'' \<in> set (classList e))
            (beatDisplay (updateBeatDisplay b s))) = 1
    \<and> (\<forall>e\<in>set (beatDisplay (updateBeatDisplay b s)).
          (''current'' \<in> set (classList e)) = (elem_id e = ''beat-'' @ num_string b))"
proof -
  let ?g = "\<lambda>indicator. if ''beat-indicator'' \<in> set (classList indicator)
      then indicator\<lparr>classList := classList_remove (classList indicator) ''current''\<rparr>
      else indicator"
  let ?cleared = "map ?g (beatDisplay s)"
  have ids: "map elem_id ?cleared = map (\<lambda>i. ''beat-'' @ num_string i) [1..totalBeats]"
    using ok by (simp add: display_ok_def comp_def if_distrib [of elem_id] cong: if_cong)
  have none: "\<forall>e\<in>set ?cleared. ''current'' \<notin> set (classList e)"
    using ok by (auto simp: display_ok_def list_all_iff classList_remove_def)
  have dist: "distinct (map elem_id ?cleared)"
    using ids beat_ids_distinct by simp
  have "b \<in> set [1..totalBeats]"
    using lo hi by simp
  then have mem: "''beat-'' @ num_string b \<in> set (map elem_id ?cleared)"
    unfolding ids by (auto simp del: set_upto)
  have bd: "beatDisplay (updateBeatDisplay b s)
      = update_by_id (''beat-'' @ num_string b)
          (\<lambda>e. e\<lparr>classList := classList_add (classList e) [''current'']\<rparr>) ?cleared"
    by (simp add: updateBeatDisplay_def Let_def)
  show ?thesis
    unfolding bd
    using update_by_id_count [OF mem none] update_by_id_current [OF dist none]
    by blast
qed

section \<open>The beat counter\<close>

lemma createInstrumentButtons_loop_beat:
  "beatDisplay (createInstrumentButtons_loop is s) = beatDisplay s
   \<and> currentBeat (createInstrumentButtons_loop is s) = currentBeat s
   \<and> beatCounter (createInstrumentButtons_loop is s) = beatCounter s"
  by (induction "is" arbitrary: s) simp_all

lemma load_instrument_beat:
  "beatDisplay (load_instrument v hname loadOk i s) = beatDisplay s
   \<and> currentBeat (load_instrument v hname loadOk i s) = currentBeat s
   \<and> beatCounter (load_instrument v hname loadOk i s) = beatCounter s"
  by (simp add: load_instrument_def showMessageBox_def Let_def)

lemma initializeAudio_loop_beat:
  "beatDisplay (initializeAudio_loop v hname loadOk is s) = beatDisplay s
   \<and> currentBeat (initializeAudio_loop v hname loadOk is s) = currentBeat s
   \<and> beatCounter (initializeAudio_loop v hname loadOk is s) = beatCounter s"
  by (induction "is" arbitrary: s) (simp_all add: load_instrument_beat)

lemma onload_button_beat:
  "beatDisplay (onload_button i s) = beatDisplay s
   \<and> currentBeat (onload_button i s) = currentBeat s
   \<and> beatCounter (onload_button i s) = beatCounter s"
  by (simp add: onload_button_def split: option.splits)

lemma onload_loop_beat:
  "beatDisplay (onload_loop is s) = beatDisplay s
   \<and> currentBeat (onload_loop is s) = currentBeat s
   \<and> beatCounter (onload_loop is s) = beatCounter s"
  by (induction "is" arbitrary: s) (simp_all add: onload_button_beat)

lemma updateBeatDisplay_beat:
  "currentBeat (updateBeatDisplay b s) = currentBeat s
   \<and> beatCounter (updateBeatDisplay b s) = beatCounter s"
  by (simp add: updateBeatDisplay_def Let_def)

lemma before_first_beat:
  "beatDisplay (onload_loop instruments (initializeAudio v hname loadOk
      (createBeatIndicators (createInstrumentButtons (initial pg)))))
     = map new_beat_span [1..totalBeats]
   \<and> currentBeat (onload_loop instruments (initializeAudio v hname loadOk
      (createBeatIndicators (createInstrumentButtons (initial pg))))) = 0
   \<and> beatCounter (onload_loop instruments (initializeAudio v hname loadOk
      (createBeatIndicators (createInstrumentButtons (initial pg))))) = 0"
  by (simp add: onload_loop_beat initializeAudio_def Let_def initializeAudio_loop_beat
      createBeatIndicators_def createBeatIndicators_loop_fields createInstrumentButtons_def
      createInstrumentButtons_loop_beat initial_def)

lemma loaded_page_display_ok: "display_ok (loaded_page v hname loadOk pg)"
proof -
  have "display_ok (onload_loop instruments (initializeAudio v hname loadOk
      (createBeatIndicators (createInstrumentButtons (initial pg)))))"
    by (simp add: display_ok_def before_first_beat comp_def new_beat_span_def list_all_iff)
  then show ?thesis
    unfolding loaded_page_def window_onload_def by (rule updateBeatDisplay_display_ok)
qed

lemma loaded_page_beat_ok: "beat_ok False (loaded_page v hname loadOk pg)"
  by (simp add: beat_ok_def loaded_page_def window_onload_def updateBeatDisplay_beat
      before_first_beat)

lemma toggleInstrument_beat:
  assumes "toggleInstrument n s = Inr s'"
  shows "beatDisplay s' = beatDisplay s \<and> currentBeat s' = currentBeat s
    \<and> beatCounter s' = beatCounter s"
  using assms
  by (auto simp: toggleInstrument_def Let_def split: option.splits if_splits)

lemma togglePlayPause_beat:
  "beatDisplay (togglePlayPause v s) = beatDisplay s
   \<and> currentBeat (togglePlayPause v s) = currentBeat s
   \<and> beatCounter (togglePlayPause v s) = beatCounter s"
  by (cases v)
     (simp_all add: togglePlayPause_def togglePlayPause_mixer_def togglePlayPause_part000_def
        Let_def forEach_player_fields)

lemma step_beat:
  assumes "e \<noteq> BeatTick" and "step v e s = Inr s'"
  shows "beatDisplay s' = beatDisplay s \<and> currentBeat s' = currentBeat s
    \<and> beatCounter s' = beatCounter s"
proof (cases e)
  case (ToggleInstrument n)
  with assms show ?thesis by (simp add: toggleInstrument_beat)
next
  case PlayPause
  with assms show ?thesis by (auto simp: togglePlayPause_beat)
next
  case BeatTick
  with assms show ?thesis by simp
next
  case (VolumeInput x)
  with assms show ?thesis by auto
next
  case MouseDown
  with assms show ?thesis by (auto simp: mousedown_def)
next
  case MessageOk
  with assms show ?thesis by (cases v) (auto simp: hideMessageBox_def)
qed

lemma js_rem_nonneg: "0 \<le> a \<Longrightarrow> js_rem a 8 = a mod 8"
  by (cases "a = 0") (simp_all add: js_rem_def)

lemma beatLoop_callback_beat:
  assumes "beat_ok t s"
  shows "currentBeat (beatLoop_callback s) = currentBeat s mod 8 + 1
    \<and> beat_ok True (beatLoop_callback s)"
proof -
  have bc: "0 \<le> beatCounter s \<and> beatCounter s < 8 \<and> beatCounter s = currentBeat s mod 8"
    using assms by (cases t) (simp_all add: beat_ok_def)
  then have cb: "currentBeat (beatLoop_callback s) = beatCounter s + 1"
    by (simp add: beatLoop_callback_def Let_def updateBeatDisplay_beat totalBeats_def
        js_rem_nonneg)
  have "beatCounter (beatLoop_callback s) = (beatCounter s + 1) mod 8"
    using bc
    by (simp add: beatLoop_callback_def Let_def updateBeatDisplay_beat totalBeats_def
        js_rem_nonneg)
  with cb bc show ?thesis
    by (simp add: beat_ok_def mod_simps)
qed

lemma step_beat_ok:
  assumes "beat_ok t s" and "step v e s = Inr s'"
  shows "beat_ok (t \<or> e = BeatTick) s'"
proof (cases "e = BeatTick")
  case True
  with assms beatLoop_callback_beat [OF assms(1)] show ?thesis by auto
next
  case False
  with assms step_beat [OF False assms(2)] show ?thesis by (simp add: beat_ok_def)
qed

lemma run_beat_ok:
  "beat_ok t s \<Longrightarrow> run v es s = Inr s' \<Longrightarrow> beat_ok (t \<or> BeatTick \<in> set es) s'"
proof (induction es arbitrary: s t)
  case Nil
  then show ?case by simp
next
  case (Cons e es)
  from Cons.prems obtain s1 where s1: "step v e s = Inr s1" and r: "run v es s1 = Inr s'"
    by (auto split: sum.splits)
  from step_beat_ok [OF Cons.prems(1) s1] have "beat_ok (t \<or> e = BeatTick) s1" .
  from Cons.IH [OF this r] show ?case
    by (simp add: disj_commute disj_left_commute eq_commute [of BeatTick e])
qed

lemma step_display_ok:
  assumes "display_ok s" and "step v e s = Inr s'"
  shows "display_ok s'"
proof (cases "e = BeatTick")
  case True
  let ?s1 = "s\<lparr>currentBeat := js_rem (beatCounter s) totalBeats + 1\<rparr>"
  have "display_ok ?s1"
    using assms(1) by (simp add: display_ok_def)
  then have "display_ok (updateBeatDisplay (currentBeat ?s1) ?s1)"
    by (rule updateBeatDisplay_display_ok)
  then have "display_ok (beatLoop_callback s)"
    by (simp add: beatLoop_callback_def Let_def display_ok_def)
  with assms(2) True show ?thesis by simp
next
  case False
  with assms step_beat [OF False assms(2)] show ?thesis by (simp add: display_ok_def)
qed

lemma run_display_ok: "display_ok s \<Longrightarrow> run v es s = Inr s' \<Longrightarrow> display_ok s'"
  by (rule run_invariant [where P = display_ok]) (rule step_display_ok)

section \<open>Console and message box while loading\<close>

lemma initializeAudio_loop_mixer_box:
  "messageBox (initializeAudio_loop Mixer hname loadOk is s) = messageBox s
   \<and> messageText (initializeAudio_loop Mixer hname loadOk is s) = messageText s"
  by (induction "is" arbitrary: s) (simp_all add: load_instrument_def Let_def)

lemma load_instrument_box_stays_shown:
  "''hidden'' \<notin> set (messageBox s) \<Longrightarrow>
     ''hidden'' \<notin> set (messageBox (load_instrument v hname loadOk i s))"
  by (simp add: load_instrument_def showMessageBox_def Let_def classList_remove_def)

lemma initializeAudio_loop_box_stays_shown:
  "''hidden'' \<notin> set (messageBox s) \<Longrightarrow>
     ''hidden'' \<notin> set (messageBox (initializeAudio_loop v hname loadOk is s))"
  by (induction "is" arbitrary: s) (simp_all add: load_instrument_box_stays_shown)

lemma load_instrument_part000_failure:
  "\<not> loadOk (url i) \<Longrightarrow>
     messageText (load_instrument Part000 hname loadOk i s) = failure_message i
     \<and> ''hidden'' \<notin> set (messageBox (load_instrument Part000 hname loadOk i s))"
  by (simp add: load_instrument_def showMessageBox_def Let_def classList_remove_def)

lemma initializeAudio_loop_part000_box:
  "i \<in> set is \<Longrightarrow> \<not> loadOk (url i) \<Longrightarrow>
     ''hidden'' \<notin> set (messageBox (initializeAudio_loop Part000 hname loadOk is s))"
proof (induction "is" arbitrary: s)
  case Nil
  then show ?case by simp
next
  case (Cons j "is")
  show ?case
  proof (cases "i = j")
    case True
    with Cons.prems show ?thesis
      by (simp add: initializeAudio_loop_box_stays_shown load_instrument_part000_failure)
  next
    case False
    with Cons show ?thesis by simp
  qed
qed

lemma initializeAudio_loop_part000_text:
  "filter (\<lambda>i. \<not> loadOk (url i)) is \<noteq> [] \<Longrightarrow>
     messageText (initializeAudio_loop Part000 hname loadOk is s)
       = failure_message (last (filter (\<lambda>i. \<not> loadOk (url i)) is))"
proof (induction "is" arbitrary: s)
  case Nil
  then show ?case by simp
next
  case (Cons j "is")
  show ?case
  proof (cases "filter (\<lambda>i. \<not> loadOk (url i)) is = []")
    case True
    have "messageText (initializeAudio_loop Part000 hname loadOk is s') = messageText s'" for s'
      using True
      by (induction "is" arbitrary: s')
         (simp_all add: load_instrument_def Let_def split: if_splits)
    with True Cons.prems show ?thesis
      by (simp add: load_instrument_part000_failure split: if_splits)
  next
    case False
    with Cons.IH [OF False] show ?thesis by simp
  qed
qed

section \<open>Sessions with events while the files load\<close>

lemma initializeAudio_loop_awaiting_nothing:
  "initializeAudio_loop_awaiting v hname loadOk (\<lambda>n. []) is s
     = initializeAudio_loop v hname loadOk is s"
  by (induction "is" arbitrary: s) simp_all

lemma window_onload_awaiting_nothing:
  "window_onload_awaiting v hname loadOk (\<lambda>n. []) s = window_onload v hname loadOk s"
  by (simp add: window_onload_awaiting_def window_onload_def initializeAudio_awaiting_def
      initializeAudio_def initializeAudio_loop_awaiting_nothing)

lemma loaded_page_awaiting_nothing:
  "loaded_page_awaiting v hname loadOk (\<lambda>n. []) pg = loaded_page v hname loadOk pg"
  by (simp add: loaded_page_awaiting_def loaded_page_def window_onload_awaiting_nothing)

lemma toggleInstrument_log:
  assumes "toggleInstrument n s = Inr s'"
  shows "console s' = console s \<and> messageBox s' = messageBox s \<and> messageText s' = messageText s"
  using assms
  by (auto simp: toggleInstrument_def Let_def split: option.splits if_splits)

lemma togglePlayPause_log:
  "set (console s) \<subseteq> set (console (togglePlayPause v s))
   \<and> messageBox (togglePlayPause v s) = messageBox s
   \<and> messageText (togglePlayPause v s) = messageText s"
  by (cases v)
     (auto simp: togglePlayPause_def togglePlayPause_mixer_def togglePlayPause_part000_def
        Let_def forEach_player_def)

lemma handle_player_none:
  assumes "fst (view n s) = None"
  shows "view n (handle_while_loading v e s) = view n s"
proof (cases e)
  case (ToggleInstrument m)
  show ?thesis
  proof (cases "toggleInstrument m s")
    case (Inl err)
    with ToggleInstrument show ?thesis by simp
  next
    case (Inr s')
    from toggleInstrument_view [OF Inr, of n] assms
    have "view n s' = view n s"
      by (cases "view n s") (auto simp: toggle_view_def)
    with ToggleInstrument Inr show ?thesis by simp
  qed
next
  case PlayPause
  obtain f where "view n (togglePlayPause v s)
         = (map_option f (map_of (players s) n), map_of (instrumentButtons s) n,
            map_of (instrumentStates s) n)"
    using togglePlayPause_view by blast
  with assms PlayPause show ?thesis by (simp add: view_def)
next
  case MouseDown
  then show ?thesis by (simp add: view_mousedown)
next
  case (VolumeInput x)
  then show ?thesis by (simp add: view_def)
qed simp_all

lemma handle_player_some:
  assumes "fst (view n s) \<noteq> None"
  shows "fst (view n (handle_while_loading v e s)) \<noteq> None"
proof (cases e)
  case (ToggleInstrument m)
  show ?thesis
  proof (cases "toggleInstrument m s")
    case (Inl err)
    with ToggleInstrument assms show ?thesis by simp
  next
    case (Inr s')
    from toggleInstrument_view [OF Inr, of n] assms
    have "fst (view n s') \<noteq> None"
      by (cases "view n s") (auto simp: toggle_view_def split: option.splits)
    with ToggleInstrument Inr show ?thesis by simp
  qed
next
  case PlayPause
  obtain f where "view n (togglePlayPause v s)
         = (map_option f (map_of (players s) n), map_of (instrumentButtons s) n,
            map_of (instrumentStates s) n)"
    using togglePlayPause_view by blast
  with assms PlayPause show ?thesis by (simp add: view_def)
next
  case MouseDown
  with assms show ?thesis by (simp add: view_mousedown)
next
  case (VolumeInput x)
  with assms show ?thesis by (simp add: view_def)
qed (use assms in simp_all)

lemma handle_button_state:
  assumes "e \<noteq> ToggleInstrument n"
  shows "snd (view n (handle_while_loading v e s)) = snd (view n s)"
proof (cases e)
  case (ToggleInstrument m)
  show ?thesis
  proof (cases "toggleInstrument m s")
    case (Inl err)
    with ToggleInstrument show ?thesis by simp
  next
    case (Inr s')
    from toggleInstrument_view [OF Inr, of n] assms ToggleInstrument
    have "view n s' = view n s" by simp
    with ToggleInstrument Inr show ?thesis by simp
  qed
next
  case PlayPause
  obtain f where "view n (togglePlayPause v s)
         = (map_option f (map_of (players s) n), map_of (instrumentButtons s) n,
            map_of (instrumentStates s) n)"
    using togglePlayPause_view by blast
  with PlayPause show ?thesis by (simp add: view_def)
next
  case MouseDown
  then show ?thesis by (simp add: view_mousedown)
next
  case (VolumeInput x)
  then show ?thesis by (simp add: view_def)
qed simp_all

lemma handle_log:
  "set (console s) \<subseteq> set (console (handle_while_loading v e s))
   \<and> messageBox (handle_while_loading v e s) = messageBox s
   \<and> messageText (handle_while_loading v e s) = messageText s"
proof (cases e)
  case (ToggleInstrument m)
  then show ?thesis
    by (cases "toggleInstrument m s") (auto dest: toggleInstrument_log)
next
  case PlayPause
  then show ?thesis using togglePlayPause_log [of s v] by simp
next
  case MouseDown
  then show ?thesis by (auto simp: mousedown_def)
qed simp_all

lemma handle_all_player_none:
  "fst (view n s) = None \<Longrightarrow> view n (handle_all v es s) = view n s"
  by (induction es arbitrary: s) (simp_all add: handle_player_none)

lemma handle_all_player_some:
  "fst (view n s) \<noteq> None \<Longrightarrow> fst (view n (handle_all v es s)) \<noteq> None"
proof (induction es arbitrary: s)
  case Nil
  then show ?case by simp
next
  case (Cons e es)
  from Cons.IH [OF handle_player_some [OF Cons.prems, of v e]] show ?case by simp
qed

lemma handle_all_button_state:
  "ToggleInstrument n \<notin> set es \<Longrightarrow> snd (view n (handle_all v es s)) = snd (view n s)"
proof (induction es arbitrary: s)
  case Nil
  show ?case by simp
next
  case (Cons e es)
  then have "e \<noteq> ToggleInstrument n" and "ToggleInstrument n \<notin> set es"
    by auto
  with Cons.IH [of "handle_while_loading v e s"] show ?case
    by (simp add: handle_button_state)
qed

lemma handle_all_log:
  "set (console s) \<subseteq> set (console (handle_all v es s))
   \<and> messageBox (handle_all v es s) = messageBox s
   \<and> messageText (handle_all v es s) = messageText s"
proof (induction es arbitrary: s)
  case Nil
  show ?case by simp
next
  case (Cons e es)
  from Cons.IH [of "handle_while_loading v e s"] handle_log [of s v e]
  show ?case by auto
qed

lemma loop_awaiting_player_none:
  assumes "n \<notin> name ` set is" and "fst (view n s) = None"
  shows "view n (initializeAudio_loop_awaiting v hname loadOk awaiting is s) = view n s"
  using assms
proof (induction "is" arbitrary: s)
  case Nil
  show ?case by simp
next
  case (Cons i "is")
  let ?s1 = "load_instrument v hname loadOk i (handle_all v (awaiting (name i)) s)"
  from Cons.prems have ne: "name i \<noteq> n"
    by auto
  from Cons.prems have v1: "view n ?s1 = view n s"
    by (simp add: view_load_instrument ne handle_all_player_none)
  with Cons.prems Cons.IH [of ?s1] show ?case by simp
qed

lemma loop_awaiting_player_some:
  assumes "n \<notin> name ` set is" and "fst (view n s) \<noteq> None"
  shows "fst (view n (initializeAudio_loop_awaiting v hname loadOk awaiting is s)) \<noteq> None"
  using assms
proof (induction "is" arbitrary: s)
  case Nil
  then show ?case by simp
next
  case (Cons i "is")
  let ?s1 = "load_instrument v hname loadOk i (handle_all v (awaiting (name i)) s)"
  from Cons.prems have ne: "name i \<noteq> n"
    by auto
  from handle_all_player_some [OF Cons.prems(2), of v "awaiting (name i)"]
  have "fst (view n ?s1) \<noteq> None"
    by (simp add: view_load_instrument ne)
  with Cons.prems Cons.IH [of ?s1] show ?case by simp
qed

lemma loop_awaiting_button_state:
  assumes "n \<notin> name ` set is"
    and "\<forall>j\<in>set is. ToggleInstrument n \<notin> set (awaiting (name j))"
  shows "snd (view n (initializeAudio_loop_awaiting v hname loadOk awaiting is s))
    = snd (view n s)"
  using assms
proof (induction "is" arbitrary: s)
  case Nil
  show ?case by simp
next
  case (Cons i "is")
  let ?s1 = "load_instrument v hname loadOk i (handle_all v (awaiting (name i)) s)"
  from Cons.prems have ne: "name i \<noteq> n"
    by auto
  from Cons.prems have "snd (view n ?s1) = snd (view n s)"
    by (simp add: view_load_instrument ne handle_all_button_state)
  with Cons.prems Cons.IH [of ?s1] show ?case by simp
qed

lemma loop_awaiting_one:
  assumes "distinct (map name is)" and "i \<in> set is"
    and "view (name i) s = (None, Some b, st0)"
  shows "(\<not> loadOk (url i) \<longrightarrow>
        view (name i) (initializeAudio_loop_awaiting v hname loadOk awaiting is s)
          = (None, Some (disable_button b), Some False))
    \<and> (loadOk (url i) \<longrightarrow>
        fst (view (name i) (initializeAudio_loop_awaiting v hname loadOk awaiting is s)) \<noteq> None
      \<and> ((\<forall>j\<in>set (tl (dropWhile (\<lambda>j. j \<noteq> i) is)).
              ToggleInstrument (name i) \<notin> set (awaiting (name j))) \<longrightarrow>
           snd (view (name i) (initializeAudio_loop_awaiting v hname loadOk awaiting is s))
             = (Some b, Some True)))"
  using assms
proof (induction "is" arbitrary: s)
  case Nil
  then show ?case by simp
next
  case (Cons j "is")
  let ?s0 = "handle_all v (awaiting (name j)) s"
  let ?s1 = "load_instrument v hname loadOk j ?s0"
  have v0: "view (name i) ?s0 = (None, Some b, st0)"
    using Cons.prems(3) by (simp add: handle_all_player_none)
  show ?case
  proof (cases "j = i")
    case True
    with Cons.prems have fresh: "name i \<notin> name ` set is"
      by auto
    have v1: "view (name i) ?s1
        = (if loadOk (url i) then (Some (new_player hname (url i)), Some b, Some True)
           else (None, Some (disable_button b), Some False))"
      using True v0 by (simp add: view_load_instrument load_view_def)
    show ?thesis
    proof (cases "loadOk (url i)")
      case ok: True
      with v1 have "fst (view (name i) ?s1) \<noteq> None" and "snd (view (name i) ?s1) = (Some b, Some True)"
        by simp_all
      with ok True loop_awaiting_player_some [OF fresh, of ?s1 v hname loadOk awaiting]
        loop_awaiting_button_state [OF fresh, of awaiting v hname loadOk ?s1]
      show ?thesis by simp
    next
      case failed: False
      with v1 have "fst (view (name i) ?s1) = None"
        and "view (name i) ?s1 = (None, Some (disable_button b), Some False)"
        by simp_all
      with failed True loop_awaiting_player_none [OF fresh, of ?s1 v hname loadOk awaiting]
      show ?thesis by simp
    qed
  next
    case False
    with Cons.prems have mem: "i \<in> set is" and other: "name j \<noteq> name i"
      and dist: "distinct (map name is)"
      by auto
    from other v0 have "view (name i) ?s1 = (None, Some b, st0)"
      by (simp add: view_load_instrument)
    from Cons.IH [OF dist mem this] False show ?thesis by simp
  qed
qed

lemma loop_awaiting_console:
  "x \<in> set (console s) \<Longrightarrow>
     x \<in> set (console (initializeAudio_loop_awaiting v hname loadOk awaiting is s))"
proof (induction "is" arbitrary: s)
  case Nil
  then show ?case by simp
next
  case (Cons i "is")
  let ?s0 = "handle_all v (awaiting (name i)) s"
  from Cons.prems handle_all_log [of s v "awaiting (name i)"] have "x \<in> set (console ?s0)"
    by auto
  then have "x \<in> set (console (load_instrument v hname loadOk i ?s0))"
    by (auto simp: load_instrument_def showMessageBox_def Let_def)
  from Cons.IH [OF this] show ?case by simp
qed

lemma loop_awaiting_error_logged:
  assumes "i \<in> set is" and "\<not> loadOk (url i)"
  shows "Error (''Error loading '' @ name i @ '' from '' @ url i @ '':'')
    \<in> set (console (initializeAudio_loop_awaiting v hname loadOk awaiting is s))"
  using assms
proof (induction "is" arbitrary: s)
  case Nil
  then show ?case by simp
next
  case (Cons j "is")
  show ?case
  proof (cases "j = i")
    case True
    with Cons.prems(2) have "Error (''Error loading '' @ name i @ '' from '' @ url i @ '':'')
      \<in> set (console (load_instrument v hname loadOk j (handle_all v (awaiting (name j)) s)))"
      by (simp add: load_instrument_def showMessageBox_def Let_def)
    then show ?thesis by (simp add: loop_awaiting_console)
  next
    case False
    with Cons show ?thesis by simp
  qed
qed

lemma load_instrument_box_cong:
  assumes "messageBox s = messageBox t" and "messageText s = messageText t"
  shows "messageBox (load_instrument v hname loadOk i s)
      = messageBox (load_instrument v hname loadOk i t)
    \<and> messageText (load_instrument v hname loadOk i s)
      = messageText (load_instrument v hname loadOk i t)"
  using assms by (simp add: load_instrument_def showMessageBox_def Let_def)

lemma loop_awaiting_box:
  assumes "messageBox s = messageBox t" and "messageText s = messageText t"
  shows "messageBox (initializeAudio_loop_awaiting v hname loadOk awaiting is s)
      = messageBox (initializeAudio_loop v hname loadOk is t)
    \<and> messageText (initializeAudio_loop_awaiting v hname loadOk awaiting is s)
      = messageText (initializeAudio_loop v hname loadOk is t)"
  using assms
proof (induction "is" arbitrary: s t)
  case Nil
  then show ?case by simp
next
  case (Cons i "is")
  let ?s0 = "handle_all v (awaiting (name i)) s"
  from Cons.prems handle_all_log [of s v "awaiting (name i)"]
  have "messageBox ?s0 = messageBox t" and "messageText ?s0 = messageText t"
    by simp_all
  from load_instrument_box_cong [OF this, of v hname loadOk i]
  have "messageBox (load_instrument v hname loadOk i ?s0)
      = messageBox (load_instrument v hname loadOk i t)"
    and "messageText (load_instrument v hname loadOk i ?s0)
      = messageText (load_instrument v hname loadOk i t)"
    by simp_all
  from Cons.IH [OF this] show ?case by simp
qed

lemma page_set_up_fields:
  "messageBox (createBeatIndicators (createInstrumentButtons (initial pg))) = message_box_classes pg"
  "messageText (createBeatIndicators (createInstrumentButtons (initial pg))) = message_text pg"
proof -
  have "messageBox (createInstrumentButtons_loop is s) = messageBox s
      \<and> messageText (createInstrumentButtons_loop is s) = messageText s" for "is" s
    by (induction "is" arbitrary: s) simp_all
  moreover have "messageBox (createBeatIndicators_loop k s) = messageBox s
      \<and> messageText (createBeatIndicators_loop k s) = messageText s" for k s
  proof (induction k s rule: createBeatIndicators_loop.induct)
    case (1 i s)
    show ?case
      by (cases "i \<le> totalBeats")
         (use 1 in \<open>simp_all add: createBeatIndicators_loop.simps [of i s]\<close>)
  qed
  ultimately show
    "messageBox (createBeatIndicators (createInstrumentButtons (initial pg))) = message_box_classes pg"
    "messageText (createBeatIndicators (createInstrumentButtons (initial pg))) = message_text pg"
    by (simp_all add: createBeatIndicators_def createInstrumentButtons_def initial_def)
qed

lemma view_page_set_up:
  "view n (createBeatIndicators (createInstrumentButtons (initial pg)))
     = (case find (\<lambda>i. name i = n) instruments of None \<Rightarrow> (None, None, None)
        | Some i \<Rightarrow> (None, Some (new_button i), None))"
  by (simp add: view_createBeatIndicators view_createInstrumentButtons view_initial
      create_view_def split: option.splits)

lemma view_audio_initialized_awaiting:
  "view n (audio_initialized_awaiting v hname loadOk awaiting pg)
     = view n (initializeAudio_loop_awaiting v hname loadOk awaiting instruments
         ((createBeatIndicators (createInstrumentButtons (initial pg)))
            \<lparr>masterVolume := Some (volumeSlider
                (createBeatIndicators (createInstrumentButtons (initial pg))))\<rparr>))"
  by (simp add: audio_initialized_awaiting_def initializeAudio_awaiting_def Let_def view_def)

lemma audio_initialized_awaiting_log:
  "console (audio_initialized_awaiting v hname loadOk awaiting pg)
     = console (initializeAudio_loop_awaiting v hname loadOk awaiting instruments
         ((createBeatIndicators (createInstrumentButtons (initial pg)))
            \<lparr>masterVolume := Some (volumeSlider
                (createBeatIndicators (createInstrumentButtons (initial pg))))\<rparr>))"
  "messageBox (audio_initialized_awaiting v hname loadOk awaiting pg)
     = messageBox (initializeAudio_loop v hname loadOk instruments
         (createBeatIndicators (createInstrumentButtons (initial pg))))"
  "messageText (audio_initialized_awaiting v hname loadOk awaiting pg)
     = messageText (initializeAudio_loop v hname loadOk instruments
         (createBeatIndicators (createInstrumentButtons (initial pg))))"
proof -
  let ?s0 = "createBeatIndicators (createInstrumentButtons (initial pg))"
  let ?s1 = "?s0\<lparr>masterVolume := Some (volumeSlider ?s0)\<rparr>"
  have "messageBox ?s1 = messageBox ?s0" and "messageText ?s1 = messageText ?s0"
    by simp_all
  from loop_awaiting_box [OF this, of v hname loadOk awaiting instruments]
  show "messageBox (audio_initialized_awaiting v hname loadOk awaiting pg)
     = messageBox (initializeAudio_loop v hname loadOk instruments ?s0)"
    and "messageText (audio_initialized_awaiting v hname loadOk awaiting pg)
     = messageText (initializeAudio_loop v hname loadOk instruments ?s0)"
    by (simp_all add: audio_initialized_awaiting_def initializeAudio_awaiting_def Let_def)
  show "console (audio_initialized_awaiting v hname loadOk awaiting pg)
     = console (initializeAudio_loop_awaiting v hname loadOk awaiting instruments ?s1)"
    by (simp add: audio_initialized_awaiting_def initializeAudio_awaiting_def Let_def)
qed

lemma audio_initialized_awaiting_one:
  assumes "i \<in> set instruments"
  shows "(\<not> loadOk (url i) \<longrightarrow>
        view (name i) (audio_initialized_awaiting v hname loadOk awaiting pg)
          = (None, Some (disable_button (new_button i)), Some False))
    \<and> (loadOk (url i) \<longrightarrow>
        fst (view (name i) (audio_initialized_awaiting v hname loadOk awaiting pg)) \<noteq> None
      \<and> ((\<forall>j\<in>set (loaded_after i). ToggleInstrument (name i) \<notin> set (awaiting (name j))) \<longrightarrow>
           snd (view (name i) (audio_initialized_awaiting v hname loadOk awaiting pg))
             = (Some (new_button i), Some True)))"
proof -
  let ?s0 = "createBeatIndicators (createInstrumentButtons (initial pg))"
  let ?s1 = "?s0\<lparr>masterVolume := Some (volumeSlider ?s0)\<rparr>"
  have "view (name i) ?s1 = view (name i) ?s0"
    by (simp add: view_def)
  with assms have "view (name i) ?s1 = (None, Some (new_button i), None)"
    by (simp add: view_page_set_up find_instrument)
  from loop_awaiting_one [OF distinct_instruments assms this, of loadOk v hname awaiting]
  show ?thesis
    unfolding view_audio_initialized_awaiting loaded_after_def .
qed

lemma audio_initialized_awaiting_other:
  assumes "n \<notin> name ` set instruments"
  shows "view n (audio_initialized_awaiting v hname loadOk awaiting pg) = (None, None, None)"
proof -
  let ?s0 = "createBeatIndicators (createInstrumentButtons (initial pg))"
  let ?s1 = "?s0\<lparr>masterVolume := Some (volumeSlider ?s0)\<rparr>"
  have "view n ?s1 = view n ?s0"
    by (simp add: view_def)
  with assms have v: "view n ?s1 = (None, None, None)"
    by (simp add: view_page_set_up find_no_instrument)
  then have "fst (view n ?s1) = None" by simp
  from loop_awaiting_player_none [OF assms this, of v hname loadOk awaiting] v
  show ?thesis
    unfolding view_audio_initialized_awaiting by simp
qed

lemma view_loaded_page_awaiting:
  "view n (loaded_page_awaiting v hname loadOk awaiting pg)
     = (case find (\<lambda>i. name i = n) instruments of
          None \<Rightarrow> view n (audio_initialized_awaiting v hname loadOk awaiting pg)
        | Some i \<Rightarrow> onload_view (view n (audio_initialized_awaiting v hname loadOk awaiting pg)))"
  unfolding loaded_page_awaiting_def window_onload_awaiting_def audio_initialized_awaiting_def
  by (simp add: view_updateBeatDisplay view_onload_loop)

lemma onload_view_player: "(fst (onload_view x) = None) = (fst x = None)"
  by (cases x) (auto simp: onload_view_def split: option.splits)

lemma loaded_page_awaiting_players:
  "(map_of (players (loaded_page_awaiting v hname loadOk awaiting pg)) n \<noteq> None)
     = (\<exists>i\<in>set instruments. name i = n \<and> loadOk (url i))"
proof (cases "n \<in> name ` set instruments")
  case False
  then have "view n (loaded_page_awaiting v hname loadOk awaiting pg) = (None, None, None)"
    by (simp add: view_loaded_page_awaiting find_no_instrument audio_initialized_awaiting_other)
  with False show ?thesis by (auto simp: view_def)
next
  case True
  then obtain i where i: "i \<in> set instruments" and n: "n = name i"
    by auto
  have only: "(\<exists>j\<in>set instruments. name j = n \<and> loadOk (url j)) = loadOk (url i)"
    using i n distinct_instruments by (auto simp: distinct_map dest: inj_onD)
  have "(fst (view n (loaded_page_awaiting v hname loadOk awaiting pg)) = None)
      = (fst (view n (audio_initialized_awaiting v hname loadOk awaiting pg)) = None)"
    using i n by (simp add: view_loaded_page_awaiting find_instrument onload_view_player)
  also have "\<dots> = (\<not> loadOk (url i))"
    using audio_initialized_awaiting_one [OF i, of loadOk v hname awaiting pg] n
    by (cases "loadOk (url i)") auto
  finally show ?thesis
    unfolding only by (simp add: view_def)
qed

lemma step_has_player:
  assumes "map_of (players s) n \<noteq> None" and "step v e s = Inr s'"
  shows "map_of (players s') n \<noteq> None"
proof (cases e)
  case (ToggleInstrument m)
  with assms have "view n s' = (if m = n then toggle_view (view n s) else view n s)"
    by (simp add: toggleInstrument_view)
  with assms(1) show ?thesis
    by (auto simp: view_def toggle_view_def split: if_splits option.splits)
next
  case PlayPause
  obtain f where "view n (togglePlayPause v s)
         = (map_option f (map_of (players s) n), map_of (instrumentButtons s) n,
            map_of (instrumentStates s) n)"
    using togglePlayPause_view by blast
  with assms PlayPause show ?thesis by (auto simp: view_def)
next
  case BeatTick
  with assms view_beatLoop_callback [of n s] show ?thesis by (auto simp: view_def)
next
  case (VolumeInput x)
  with assms show ?thesis by auto
next
  case MouseDown
  with assms view_mousedown [of n v s] show ?thesis by (auto simp: view_def)
next
  case MessageOk
  with assms view_hideMessageBox [of n s] show ?thesis by (cases v) (auto simp: view_def)
qed

lemma run_players_kept:
  assumes "run v es s = Inr s'"
  shows "(map_of (players s') n \<noteq> None) = (map_of (players s) n \<noteq> None)"
proof (cases "map_of (players s) n = None")
  case True
  from run_no_player [OF True assms] True show ?thesis by simp
next
  case False
  have "map_of (players s') n \<noteq> None"
    using False assms
    by (rule run_invariant [where P = "\<lambda>s. map_of (players s) n \<noteq> None", rotated])
       (rule step_has_player)
  with False show ?thesis by simp
qed

lemma session_players_are_the_loaded:
  assumes "run v es (loaded_page_awaiting v hname loadOk awaiting pg) = Inr s"
  shows "(n \<in> fst ` set (players s)) = (\<exists>i\<in>set instruments. name i = n \<and> loadOk (url i))"
  using run_players_kept [OF assms, of n] loaded_page_awaiting_players [of v hname loadOk awaiting pg n]
  by (simp add: map_of_eq_None_iff)

section \<open>The claims\<close>

subsection \<open>Starting the transport\<close>

text \<open>
  C1, the claim as written: in \<^verbatim>\<open>mixer.js\<close> a muted instrument is started all the same.
  After loading, Clave is muted by a click; it is loaded, its entry of
  \<open>instrumentStates\<close> is \<^verbatim>\<open>false\<close>, its volume is \<^verbatim>\<open>-Infinity\<close> and it is not playing. The
  click on the play button then starts it.
\<close>

theorem togglePlayPause_mixer_starts_muted_player:
  "transport (demo_run Mixer [ToggleInstrument ''Clave'']) = Stopped
   \<and> map_of (instrumentStates (demo_run Mixer [ToggleInstrument ''Clave''])) ''Clave''
       = Some False
   \<and> map_option (\<lambda>p. (volume p, isPlaying p))
        (map_of (players (demo_run Mixer [ToggleInstrument ''Clave''])) ''Clave'')
       = Some (NegInfinity, False)
   \<and> map_option (\<lambda>p. (volume p, isPlaying p))
        (map_of (players (togglePlayPause Mixer (demo_run Mixer [ToggleInstrument ''Clave''])))
          ''Clave'')
       = Some (NegInfinity, True)"
  by code_simp

text \<open>
  C1 as amended. When \<^verbatim>\<open>togglePlayPause\<close> finds the transport not started, it starts it.
  The entries of \<open>players\<close> keep their keys; a handle that is already playing is left as
  it was, and every other handle is either started or left as it was. In \<^verbatim>\<open>mixer.js\<close>
  every handle that is not playing is started, muted or not. (Which of the handles that
  are not playing the second variant starts is not part of this statement.) In every
  session, also one with events handled while the files load, the keys of \<open>players\<close> are
  the names of the instruments whose load succeeded.
\<close>

theorem togglePlayPause_stopped_starts_players:
  assumes "transport s \<noteq> Started"
  shows "transport (togglePlayPause v s) = Started
    \<and> length (players (togglePlayPause v s)) = length (players s)
    \<and> (\<forall>k < length (players s).
          fst (players (togglePlayPause v s) ! k) = fst (players s ! k)
        \<and> (isPlaying (snd (players s ! k)) \<longrightarrow>
             players (togglePlayPause v s) ! k = players s ! k)
        \<and> (snd (players (togglePlayPause v s) ! k) = snd (players s ! k)
             \<or> snd (players (togglePlayPause v s) ! k) = start (snd (players s ! k)))
        \<and> (v = Mixer \<and> \<not> isPlaying (snd (players s ! k)) \<longrightarrow>
             snd (players (togglePlayPause v s) ! k) = start (snd (players s ! k))))
    \<and> (\<forall>es hname loadOk awaiting pg.
          run v es (loaded_page_awaiting v hname loadOk awaiting pg) = Inr s \<longrightarrow>
          (\<forall>n. (n \<in> fst ` set (players s))
                = (\<exists>i\<in>set instruments. name i = n \<and> loadOk (url i))))"
proof -
  have "transport (togglePlayPause v s) = Started
    \<and> length (players (togglePlayPause v s)) = length (players s)
    \<and> (\<forall>k < length (players s).
          fst (players (togglePlayPause v s) ! k) = fst (players s ! k)
        \<and> (isPlaying (snd (players s ! k)) \<longrightarrow>
             players (togglePlayPause v s) ! k = players s ! k)
        \<and> (snd (players (togglePlayPause v s) ! k) = snd (players s ! k)
             \<or> snd (players (togglePlayPause v s) ! k) = start (snd (players s ! k)))
        \<and> (v = Mixer \<and> \<not> isPlaying (snd (players s ! k)) \<longrightarrow>
             snd (players (togglePlayPause v s) ! k) = start (snd (players s ! k))))"
    using assms
    by (cases v)
       (simp_all add: togglePlayPause_def togglePlayPause_mixer_def togglePlayPause_part000_def
          Let_def forEach_player_fields forEach_player_nth)
  moreover have "\<forall>es hname loadOk awaiting pg.
          run v es (loaded_page_awaiting v hname loadOk awaiting pg) = Inr s \<longrightarrow>
          (\<forall>n. (n \<in> fst ` set (players s))
                = (\<exists>i\<in>set instruments. name i = n \<and> loadOk (url i)))"
    using session_players_are_the_loaded by blast
  ultimately show ?thesis by blast
qed

theorem togglePlayPause_stopped_starts_players_witness:
  "transport (demo_clicked Mixer) \<noteq> Started
   \<and> transport (togglePlayPause Mixer (demo_clicked Mixer)) = Started
   \<and> map (\<lambda>(k, p). (k, volume p, isPlaying p)) (players (demo_clicked Mixer))
       = [(''Clave'', NegInfinity, False), (''Conga'', Db 0, False), (''Piano'', Db 0, False),
          (''Maracas'', Db 0, False), (''Guiro'', Db 0, False), (''Trumpet'', Db 0, False),
          (''Trombone'', Db 0, False), (''Vocals'', Db 0, False)]
   \<and> map (\<lambda>(k, p). (k, volume p, isPlaying p)) (players (togglePlayPause Mixer (demo_clicked Mixer)))
       = [(''Clave'', NegInfinity, True), (''Conga'', Db 0, True), (''Piano'', Db 0, True),
          (''Maracas'', Db 0, True), (''Guiro'', Db 0, True), (''Trumpet'', Db 0, True),
          (''Trombone'', Db 0, True), (''Vocals'', Db 0, True)]
   \<and> transport (demo_clicked Part000) \<noteq> Started
   \<and> transport (togglePlayPause Part000 (demo_clicked Part000)) = Started
   \<and> length (players (togglePlayPause Part000 (demo_clicked Part000))) = 8"
proof -
  have m: "transport (demo_clicked Mixer) \<noteq> Started"
    by code_simp
  have p: "transport (demo_clicked Part000) \<noteq> Started"
    by code_simp
  have before: "map (\<lambda>(k, p). (k, volume p, isPlaying p)) (players (demo_clicked Mixer))
       = [(''Clave'', NegInfinity, False), (''Conga'', Db 0, False), (''Piano'', Db 0, False),
          (''Maracas'', Db 0, False), (''Guiro'', Db 0, False), (''Trumpet'', Db 0, False),
          (''Trombone'', Db 0, False), (''Vocals'', Db 0, False)]"
    by code_simp
  have after: "map (\<lambda>(k, p). (k, volume p, isPlaying p))
        (players (togglePlayPause Mixer (demo_clicked Mixer)))
       = [(''Clave'', NegInfinity, True), (''Conga'', Db 0, True), (''Piano'', Db 0, True),
          (''Maracas'', Db 0, True), (''Guiro'', Db 0, True), (''Trumpet'', Db 0, True),
          (''Trombone'', Db 0, True), (''Vocals'', Db 0, True)]"
    by code_simp
  have "length (players (demo_clicked Part000)) = 8"
    by code_simp
  with m p before after
    togglePlayPause_stopped_starts_players [OF m, of Mixer]
    togglePlayPause_stopped_starts_players [OF p, of Part000]
  show ?thesis by simp
qed

text \<open>
  The second variant means to start the handles that are not playing and not muted (its
  comment: only start if not playing and is active), and tests
  \<^verbatim>\<open>instrumentStates[player.name]\<close> for it; but the scripts never give a handle the name
  of its instrument. With an engine that names every handle \<^verbatim>\<open>Player\<close>, as the concrete
  session has it, no instrument is called \<^verbatim>\<open>Player\<close>, so \<open>instrumentStates\<close> has no entry
  under the handle's name and the click on the play button starts no player, although all
  eight loaded instruments are unmuted.
\<close>

lemma togglePlayPause_part000_handles_named_by_engine:
  "map snd (instrumentStates (demo_run Part000 []))
     = [True, True, False, True, True, True, True, True, True]
   \<and> map (isPlaying \<circ> snd) (players (togglePlayPause Part000 (demo_run Part000 [])))
       = [False, False, False, False, False, False, False, False]"
  by code_simp

subsection \<open>The range of the beat counter\<close>

text \<open>
  C2, the claim as written: \<open>currentBeat\<close> is not in the range 1 to 8 when the script
  starts, nor when \<^verbatim>\<open>window.onload\<close> has run; the variable is declared with the value 0
  and only the beat callback assigns it.
\<close>

theorem currentBeat_starts_at_zero:
  "\<not> (1 \<le> currentBeat (initial demo_page) \<and> currentBeat (initial demo_page) \<le> 8)
   \<and> \<not> (1 \<le> currentBeat (demo_run Mixer []) \<and> currentBeat (demo_run Mixer []) \<le> 8)
   \<and> currentBeat (demo_run Mixer [PlayPause, ToggleInstrument ''Clave'']) = 0"
proof -
  have "currentBeat (initial demo_page) = 0"
    by (simp add: initial_def)
  moreover have "currentBeat (demo_run Mixer []) = 0"
    using run_beat_ok [OF loaded_page_beat_ok demo_run_eq [of Mixer "[]"]]
    by (simp add: beat_ok_def)
  moreover have "currentBeat (demo_run Mixer [PlayPause, ToggleInstrument ''Clave'']) = 0"
    by code_simp
  ultimately show ?thesis by simp
qed

text \<open>
  C2 as amended. \<open>currentBeat\<close> is 0 from the start of the script until the first beat
  callback; once a callback has run it is an integer from 1 to 8 in every later state, and
  in any state the next callback leaves it from 1 to 8.
\<close>

theorem currentBeat_zero_then_in_range:
  assumes "run v es (loaded_page v hname loadOk pg) = Inr s"
  shows "currentBeat (initial pg) = 0
    \<and> (BeatTick \<notin> set es \<longrightarrow> currentBeat s = 0)
    \<and> (BeatTick \<in> set es \<longrightarrow> 1 \<le> currentBeat s \<and> currentBeat s \<le> 8)
    \<and> 1 \<le> currentBeat (beatLoop_callback s) \<and> currentBeat (beatLoop_callback s) \<le> 8"
proof -
  have ok: "beat_ok (BeatTick \<in> set es) s"
    using run_beat_ok [OF loaded_page_beat_ok assms] by simp
  from beatLoop_callback_beat [OF ok] have "beat_ok True (beatLoop_callback s)"
    by simp
  with ok show ?thesis
    by (auto simp: beat_ok_def initial_def)
qed

theorem currentBeat_zero_then_in_range_witness:
  "currentBeat (demo_run Part000 [PlayPause, BeatTick, BeatTick, BeatTick]) = 3
   \<and> BeatTick \<in> set [PlayPause, BeatTick, BeatTick, BeatTick]
   \<and> 1 \<le> currentBeat (demo_run Part000 [PlayPause, BeatTick, BeatTick, BeatTick])
   \<and> currentBeat (demo_run Part000 [PlayPause, BeatTick, BeatTick, BeatTick]) \<le> 8"
proof -
  have "currentBeat (demo_run Part000 [PlayPause, BeatTick, BeatTick, BeatTick]) = 3"
    by code_simp
  with currentBeat_zero_then_in_range
      [OF demo_run_eq [of Part000 "[PlayPause, BeatTick, BeatTick, BeatTick]"]]
  show ?thesis by simp
qed

subsection \<open>Pausing the transport\<close>

text \<open>
  C3. When \<^verbatim>\<open>togglePlayPause\<close> finds the transport started, it pauses it, and in either
  variant every entry of \<open>players\<close> keeps its key, none reports \<open>isPlaying\<close> afterwards,
  a handle that was playing is the old one paused, and an entry that was not playing is
  left as it was.
\<close>

theorem togglePlayPause_running_pauses_all:
  assumes "transport s = Started"
  shows "transport (togglePlayPause v s) = Paused
    \<and> length (players (togglePlayPause v s)) = length (players s)
    \<and> (\<forall>i < length (players s).
          fst (players (togglePlayPause v s) ! i) = fst (players s ! i)
        \<and> \<not> isPlaying (snd (players (togglePlayPause v s) ! i))
        \<and> (isPlaying (snd (players s ! i)) \<longrightarrow>
             snd (players (togglePlayPause v s) ! i) = pause (snd (players s ! i)))
        \<and> (\<not> isPlaying (snd (players s ! i)) \<longrightarrow>
             players (togglePlayPause v s) ! i = players s ! i))"
  using assms
  by (cases v)
     (simp_all add: togglePlayPause_def togglePlayPause_mixer_def togglePlayPause_part000_def
        forEach_player_fields forEach_player_nth pause_def)

theorem togglePlayPause_running_pauses_all_witness:
  "transport (demo_run Mixer [PlayPause]) = Started
   \<and> map (isPlaying \<circ> snd) (players (demo_run Mixer [PlayPause]))
       = [True, True, True, True, True, True, True, True]
   \<and> map (isPlaying \<circ> snd) (players (togglePlayPause Mixer (demo_run Mixer [PlayPause])))
       = [False, False, False, False, False, False, False, False]"
proof -
  have h: "transport (demo_run Mixer [PlayPause]) = Started"
    by code_simp
  have "map (isPlaying \<circ> snd) (players (demo_run Mixer [PlayPause]))
       = [True, True, True, True, True, True, True, True]"
    by code_simp
  moreover have
    "map (isPlaying \<circ> snd) (players (togglePlayPause Mixer (demo_run Mixer [PlayPause])))
       = [False, False, False, False, False, False, False, False]"
    by code_simp
  ultimately show ?thesis
    using h togglePlayPause_running_pauses_all [OF h, of Mixer] by simp
qed

subsection \<open>Toggling twice\<close>

text \<open>
  C4. In every state the page can reach after loading, for a name with a player and an
  enabled button, \<^verbatim>\<open>toggleInstrument\<close> succeeds twice in a row; the first call inverts the
  entry of \<open>instrumentStates\<close>, and after the second the entry, the volume of the player
  and the presence of \<^verbatim>\<open>active\<close> on the button are what they were.
\<close>

theorem toggleInstrument_twice_restores:
  assumes "run v es (loaded_page v hname loadOk pg) = Inr s"
    and "map_of (players s) n = Some p"
    and "map_of (instrumentButtons s) n = Some b"
    and "\<not> disabled b"
  shows "\<exists>s1 s2. toggleInstrument n s = Inr s1 \<and> toggleInstrument n s1 = Inr s2
      \<and> map_of (instrumentStates s1) n = map_option Not (map_of (instrumentStates s) n)
      \<and> map_of (instrumentStates s2) n = map_of (instrumentStates s) n
      \<and> map_option volume (map_of (players s2) n) = Some (volume p)
      \<and> (\<exists>b2. map_of (instrumentButtons s2) n = Some b2 \<and> \<not> disabled b2
             \<and> (''active'' \<in> set (classList b2)) = (''active'' \<in> set (classList b)))"
proof -
  have ok: "view_ok (view n s)"
    using run_consistent [OF loaded_page_consistent assms(1)] by (simp add: consistent_def)
  obtain s1 where s1: "toggleInstrument n s = Inr s1"
    using toggleInstrument_succeeds [OF assms(2,3)] by blast
  have v1: "view n s1 = toggle_view (view n s)"
    using toggleInstrument_view [OF s1, of n] by simp
  have "\<exists>p1 b1. map_of (players s1) n = Some p1 \<and> map_of (instrumentButtons s1) n = Some b1"
    using v1 assms(2,3,4) by (auto simp: view_def toggle_view_def split: if_splits)
  then obtain s2 where s2: "toggleInstrument n s1 = Inr s2"
    using toggleInstrument_succeeds by blast
  have v2: "view n s2 = toggle_view (toggle_view (view n s))"
    using toggleInstrument_view [OF s2, of n] v1 by simp
  obtain st where st: "view n s = (Some p, Some b, Some st)"
    using ok assms(2,3) by (auto simp: view_def view_ok_def split: option.splits)
  have "view n s1 = toggle_view (Some p, Some b, Some st)"
    using v1 st by simp
  moreover have "view n s2 = toggle_view (toggle_view (Some p, Some b, Some st))"
    using v2 st by simp
  ultimately show ?thesis
    using s1 s2 st ok assms(4)
    by (cases st)
       (auto simp: view_def view_ok_def toggle_view_def truthy_def classList_remove_def)
qed

theorem toggleInstrument_twice_restores_witness:
  "map_option volume (map_of (players (demo_run Part000 [PlayPause])) ''Piano'') = Some (Db 0)
   \<and> map_option disabled (map_of (instrumentButtons (demo_run Part000 [PlayPause])) ''Piano'')
       = Some False
   \<and> (\<exists>s1 s2. toggleInstrument ''Piano'' (demo_run Part000 [PlayPause]) = Inr s1
         \<and> toggleInstrument ''Piano'' s1 = Inr s2
         \<and> map_of (instrumentStates s2) ''Piano''
             = map_of (instrumentStates (demo_run Part000 [PlayPause])) ''Piano''
         \<and> map_option volume (map_of (players s2) ''Piano'') = Some (Db 0))"
proof -
  have v: "map_option (\<lambda>p. (volume p, pname p, isPlaying p))
      (map_of (players (demo_run Part000 [PlayPause])) ''Piano'') = Some (Db 0, ''Player'', False)"
    by code_simp
  have d: "map_option disabled (map_of (instrumentButtons (demo_run Part000 [PlayPause])) ''Piano'')
       = Some False"
    by code_simp
  from v obtain p where
    p: "map_of (players (demo_run Part000 [PlayPause])) ''Piano'' = Some p" and "volume p = Db 0"
    by auto
  from d obtain b where
    b: "map_of (instrumentButtons (demo_run Part000 [PlayPause])) ''Piano'' = Some b"
    and "\<not> disabled b"
    by auto
  with toggleInstrument_twice_restores [OF demo_run_eq p b] v d \<open>volume p = Db 0\<close>
  show ?thesis
    by auto
qed

subsection \<open>Toggling a failed instrument\<close>

text \<open>
  C5. An instrument whose load failed has no player and a disabled button in every state
  the page can reach after loading, and \<^verbatim>\<open>toggleInstrument\<close> on its name returns the
  state unchanged there: the three dictionaries, every volume and every class list stay
  as they are.
\<close>

theorem toggleInstrument_failed_is_noop:
  assumes "i \<in> set instruments" and "\<not> loadOk (url i)"
    and "run v es (loaded_page v hname loadOk pg) = Inr s"
  shows "map_of (players s) (name i) = None
    \<and> (\<exists>b. map_of (instrumentButtons s) (name i) = Some b \<and> disabled b)
    \<and> toggleInstrument (name i) s = Inr s"
proof -
  from assms(1,2) loaded_page_view_failed [of i loadOk v hname pg]
  have "map_of (players (loaded_page v hname loadOk pg)) (name i) = None"
    and "button_disabled (loaded_page v hname loadOk pg) (name i)"
    by (simp_all add: view_def button_disabled_def new_button_fields)
  with assms(3) have "map_of (players s) (name i) = None" and "button_disabled s (name i)"
    by (blast intro: run_no_player run_button_disabled)+
  then show ?thesis
    by (auto simp: toggleInstrument_noop button_disabled_def split: option.splits)
qed

theorem toggleInstrument_failed_is_noop_witness:
  "\<lparr>name = ''Bass'', url = ''bass.wav''\<rparr> \<in> set instruments
   \<and> map_of (players (demo_run Part000 [PlayPause, ToggleInstrument ''Bass'', BeatTick])) ''Bass''
       = None
   \<and> toggleInstrument ''Bass'' (demo_run Part000 [PlayPause, ToggleInstrument ''Bass'', BeatTick])
       = Inr (demo_run Part000 [PlayPause, ToggleInstrument ''Bass'', BeatTick])"
proof -
  have h: "\<lparr>name = ''Bass'', url = ''bass.wav''\<rparr> \<in> set instruments"
    by (simp add: instruments_def)
  show ?thesis
    using h toggleInstrument_failed_is_noop [OF h _ demo_run_eq,
        of Part000 "[PlayPause, ToggleInstrument ''Bass'', BeatTick]"]
    by simp
qed

subsection \<open>Load failures\<close>

text \<open>
  C6, the claim as written: with a click between two loads, an instrument whose load
  succeeded does not have the state \<^verbatim>\<open>true\<close> when \<^verbatim>\<open>initializeAudio\<close> returns. The
  buttons are created and wired before the files load; here Clave has loaded and its button
  is clicked while Conga loads.
\<close>

theorem initializeAudio_clicked_instrument_is_muted:
  "map_option (\<lambda>p. (pname p, volume p)) (map_of (players (demo_clicked_audio Mixer)) ''Clave'')
     = Some (''Player'', NegInfinity)
   \<and> map_of (instrumentStates (demo_clicked_audio Mixer)) ''Clave'' = Some False
   \<and> map_of (instrumentStates (demo_clicked_audio Part000)) ''Clave'' = Some False"
  by code_simp

text \<open>
  C6 as amended. \<open>audio_initialized_awaiting\<close> is the state in which
  \<^verbatim>\<open>initializeAudio\<close> returns, for any outcome \<open>loadOk\<close> of the loads and any events
  \<open>awaiting\<close> handled while each file loads. Whatever happens to the other instruments,
  an instrument whose load succeeds has a player, and its state is \<^verbatim>\<open>true\<close> unless its
  button is clicked while a later instrument loads. An instrument whose load fails has no
  player and the state \<^verbatim>\<open>false\<close>, its button is disabled and without \<^verbatim>\<open>active\<close>, and
  the console holds its error line. In the second variant the handler of the failure
  puts the instrument's message in the message box and shows it, and the box is still
  shown when \<^verbatim>\<open>initializeAudio\<close> returns, with the message of the last instrument that
  failed; in \<^verbatim>\<open>mixer.js\<close> the message box is as the page had it.
\<close>

theorem initializeAudio_isolates_failures:
  assumes "i \<in> set instruments"
  shows "(loadOk (url i) \<longrightarrow>
        (\<exists>p. map_of (players (audio_initialized_awaiting v hname loadOk awaiting pg)) (name i)
               = Some p)
      \<and> ((\<forall>j\<in>set (loaded_after i). ToggleInstrument (name i) \<notin> set (awaiting (name j))) \<longrightarrow>
           map_of (instrumentStates (audio_initialized_awaiting v hname loadOk awaiting pg))
             (name i) = Some True))
    \<and> (\<not> loadOk (url i) \<longrightarrow>
        map_of (players (audio_initialized_awaiting v hname loadOk awaiting pg)) (name i) = None
      \<and> map_of (instrumentStates (audio_initialized_awaiting v hname loadOk awaiting pg)) (name i)
          = Some False
      \<and> (\<exists>b. map_of (instrumentButtons (audio_initialized_awaiting v hname loadOk awaiting pg))
                (name i) = Some b
             \<and> disabled b \<and> ''active'' \<notin> set (classList b))
      \<and> Error (''Error loading '' @ name i @ '' from '' @ url i @ '':'')
           \<in> set (console (audio_initialized_awaiting v hname loadOk awaiting pg))
      \<and> (v = Part000 \<longrightarrow>
            (\<forall>s. messageText (load_instrument Part000 hname loadOk i s) = failure_message i
                 \<and> ''hidden'' \<notin> set (messageBox (load_instrument Part000 hname loadOk i s)))
          \<and> ''hidden'' \<notin> set (messageBox (audio_initialized_awaiting v hname loadOk awaiting pg))
          \<and> messageText (audio_initialized_awaiting v hname loadOk awaiting pg)
              = failure_message (last (filter (\<lambda>j. \<not> loadOk (url j)) instruments)))
      \<and> (v = Mixer \<longrightarrow>
            messageBox (audio_initialized_awaiting v hname loadOk awaiting pg)
              = message_box_classes pg
          \<and> messageText (audio_initialized_awaiting v hname loadOk awaiting pg)
              = message_text pg))"
proof (cases "loadOk (url i)")
  case True
  with audio_initialized_awaiting_one [OF assms, of loadOk v hname awaiting pg] show ?thesis
    by (auto simp: view_def)
next
  case False
  from False audio_initialized_awaiting_one [OF assms, of loadOk v hname awaiting pg]
  have dict: "map_of (players (audio_initialized_awaiting v hname loadOk awaiting pg)) (name i)
        = None
      \<and> map_of (instrumentStates (audio_initialized_awaiting v hname loadOk awaiting pg)) (name i)
          = Some False
      \<and> (\<exists>b. map_of (instrumentButtons (audio_initialized_awaiting v hname loadOk awaiting pg))
                (name i) = Some b
             \<and> disabled b \<and> ''active'' \<notin> set (classList b))"
    by (simp add: view_def new_button_fields)
  have log: "Error (''Error loading '' @ name i @ '' from '' @ url i @ '':'')
           \<in> set (console (audio_initialized_awaiting v hname loadOk awaiting pg))"
    unfolding audio_initialized_awaiting_log(1)
    using assms False by (rule loop_awaiting_error_logged)
  have failed: "filter (\<lambda>j. \<not> loadOk (url j)) instruments \<noteq> []"
    using assms False by (auto simp: filter_empty_conv)
  have box: "v = Part000 \<longrightarrow>
            (\<forall>s. messageText (load_instrument Part000 hname loadOk i s) = failure_message i
                 \<and> ''hidden'' \<notin> set (messageBox (load_instrument Part000 hname loadOk i s)))
          \<and> ''hidden'' \<notin> set (messageBox (audio_initialized_awaiting v hname loadOk awaiting pg))
          \<and> messageText (audio_initialized_awaiting v hname loadOk awaiting pg)
              = failure_message (last (filter (\<lambda>j. \<not> loadOk (url j)) instruments))"
    using assms False failed
    by (simp add: audio_initialized_awaiting_log(2,3) load_instrument_part000_failure
        initializeAudio_loop_part000_box initializeAudio_loop_part000_text)
  have plain: "v = Mixer \<longrightarrow>
            messageBox (audio_initialized_awaiting v hname loadOk awaiting pg)
              = message_box_classes pg
          \<and> messageText (audio_initialized_awaiting v hname loadOk awaiting pg)
              = message_text pg"
    by (simp add: audio_initialized_awaiting_log(2,3) initializeAudio_loop_mixer_box
        page_set_up_fields)
  from False dict log box plain show ?thesis by blast
qed

theorem initializeAudio_isolates_failures_witness:
  "\<lparr>name = ''Bass'', url = ''bass.wav''\<rparr> \<in> set instruments
   \<and> \<lparr>name = ''Piano'', url = ''piano.wav''\<rparr> \<in> set instruments
   \<and> loaded_after \<lparr>name = ''Piano'', url = ''piano.wav''\<rparr>
       = [\<lparr>name = ''Maracas'', url = ''maracas.wav''\<rparr>, \<lparr>name = ''Guiro'', url = ''guiro.wav''\<rparr>,
          \<lparr>name = ''Trumpet'', url = ''trumpet.wav''\<rparr>,
          \<lparr>name = ''Trombone'', url = ''trombone.wav''\<rparr>,
          \<lparr>name = ''Vocals'', url = ''vocals.wav''\<rparr>]
   \<and> map_of (players (demo_clicked_audio Part000)) ''Bass'' = None
   \<and> map_of (instrumentStates (demo_clicked_audio Part000)) ''Bass'' = Some False
   \<and> Error ''Error loading Bass from bass.wav:'' \<in> set (console (demo_clicked_audio Part000))
   \<and> ''hidden'' \<notin> set (messageBox (demo_clicked_audio Part000))
   \<and> map_of (players (demo_clicked_audio Part000)) ''Piano'' \<noteq> None
   \<and> map_of (instrumentStates (demo_clicked_audio Part000)) ''Piano'' = Some True"
proof -
  have b: "\<lparr>name = ''Bass'', url = ''bass.wav''\<rparr> \<in> set instruments"
    and p: "\<lparr>name = ''Piano'', url = ''piano.wav''\<rparr> \<in> set instruments"
    by (simp_all add: instruments_def)
  have after: "loaded_after \<lparr>name = ''Piano'', url = ''piano.wav''\<rparr>
       = [\<lparr>name = ''Maracas'', url = ''maracas.wav''\<rparr>, \<lparr>name = ''Guiro'', url = ''guiro.wav''\<rparr>,
          \<lparr>name = ''Trumpet'', url = ''trumpet.wav''\<rparr>,
          \<lparr>name = ''Trombone'', url = ''trombone.wav''\<rparr>,
          \<lparr>name = ''Vocals'', url = ''vocals.wav''\<rparr>]"
    by (simp add: loaded_after_def instruments_def)
  show ?thesis
    using b p after
      initializeAudio_isolates_failures [OF b, of "\<lambda>u. u \<noteq> ''bass.wav''" Part000
        "\<lambda>u. ''Player''" demo_awaiting demo_page]
      initializeAudio_isolates_failures [OF p, of "\<lambda>u. u \<noteq> ''bass.wav''" Part000
        "\<lambda>u. ''Player''" demo_awaiting demo_page]
    by (simp add: demo_clicked_audio_def demo_awaiting_def)
qed

subsection \<open>The beat callback\<close>

text \<open>
  C7. In every state the page can reach after loading, one firing of the beat callback
  takes \<open>currentBeat\<close> to the next value of the cycle: 8 is followed by 1 and every other
  value by its successor (from the 0 it holds before the first firing, to 1). The
  indicator marked afterwards is the one of the new value. No other handler changes
  \<open>currentBeat\<close> or the captured counter.
\<close>

theorem beatLoop_callback_advances_one_step:
  assumes "run v es (loaded_page v hname loadOk pg) = Inr s"
  shows "currentBeat (beatLoop_callback s) = (if currentBeat s = 8 then 1 else currentBeat s + 1)
    \<and> (\<forall>e\<in>set (beatDisplay (beatLoop_callback s)).
          (''current'' \<in> set (classList e))
            = (elem_id e = ''beat-'' @ num_string (currentBeat (beatLoop_callback s))))
    \<and> (\<forall>e s'. e \<noteq> BeatTick \<longrightarrow> step v e s = Inr s' \<longrightarrow>
          currentBeat s' = currentBeat s \<and> beatCounter s' = beatCounter s)"
proof -
  have ok: "beat_ok (BeatTick \<in> set es) s"
    using run_beat_ok [OF loaded_page_beat_ok assms] by simp
  note cb = beatLoop_callback_beat [OF ok]
  have next_beat:
    "currentBeat (beatLoop_callback s) = (if currentBeat s = 8 then 1 else currentBeat s + 1)"
    using cb ok by (cases "BeatTick \<in> set es") (auto simp: beat_ok_def)
  let ?s1 = "s\<lparr>currentBeat := js_rem (beatCounter s) totalBeats + 1\<rparr>"
  have d: "display_ok ?s1"
    using run_display_ok [OF loaded_page_display_ok assms] by (simp add: display_ok_def)
  have c1: "currentBeat ?s1 = currentBeat (beatLoop_callback s)"
    by (simp add: beatLoop_callback_def Let_def updateBeatDisplay_beat)
  have range: "1 \<le> currentBeat ?s1 \<and> currentBeat ?s1 \<le> totalBeats"
    using cb unfolding c1 by (simp add: beat_ok_def totalBeats_def)
  have "beatDisplay (beatLoop_callback s) = beatDisplay (updateBeatDisplay (currentBeat ?s1) ?s1)"
    by (simp add: beatLoop_callback_def Let_def)
  with updateBeatDisplay_marks_one [OF d, of "currentBeat ?s1"] range c1
  have shown: "\<forall>e\<in>set (beatDisplay (beatLoop_callback s)).
          (''current'' \<in> set (classList e))
            = (elem_id e = ''beat-'' @ num_string (currentBeat (beatLoop_callback s)))"
    by simp
  have "\<forall>e s'. e \<noteq> BeatTick \<longrightarrow> step v e s = Inr s' \<longrightarrow>
          currentBeat s' = currentBeat s \<and> beatCounter s' = beatCounter s"
    using step_beat by blast
  with next_beat shown show ?thesis by blast
qed

theorem beatLoop_callback_advances_one_step_witness:
  "currentBeat (demo_run Part000
      [PlayPause, BeatTick, BeatTick, BeatTick, BeatTick, BeatTick, BeatTick, BeatTick, BeatTick])
     = 8
   \<and> currentBeat (beatLoop_callback (demo_run Part000
      [PlayPause, BeatTick, BeatTick, BeatTick, BeatTick, BeatTick, BeatTick, BeatTick, BeatTick]))
     = 1"
proof -
  have "currentBeat (demo_run Part000
      [PlayPause, BeatTick, BeatTick, BeatTick, BeatTick, BeatTick, BeatTick, BeatTick, BeatTick])
     = 8"
    by code_simp
  with beatLoop_callback_advances_one_step
      [OF demo_run_eq [of Part000 "[PlayPause, BeatTick, BeatTick, BeatTick, BeatTick,
         BeatTick, BeatTick, BeatTick, BeatTick]"]]
  show ?thesis by simp
qed

subsection \<open>The beat indicators\<close>

text \<open>
  C8. In every state the page can reach after loading and for every beat from 1 to 8,
  after \<^verbatim>\<open>updateBeatDisplay(beat)\<close> exactly one child of the beat display carries the
  class \<^verbatim>\<open>current\<close>: a child carries it if and only if its id is \<^verbatim>\<open>beat-\<close> followed by
  the beat. The eight indicators \<^verbatim>\<open>beat-1\<close> to \<^verbatim>\<open>beat-8\<close> stay in place.
\<close>

theorem updateBeatDisplay_marks_exactly_one:
  assumes "run v es (loaded_page v hname loadOk pg) = Inr s"
    and "1 \<le> beat" and "beat \<le> 8"
  shows "length (filter (\<lambda>e. ''current'' \<in> set (classList e))
            (beatDisplay (updateBeatDisplay beat s))) = 1
    \<and> (\<forall>e\<in>set (beatDisplay (updateBeatDisplay beat s)).
          (''current'' \<in> set (classList e)) = (elem_id e = ''beat-'' @ num_string beat))
    \<and> map elem_id (beatDisplay (updateBeatDisplay beat s))
        = map (\<lambda>i. ''beat-'' @ num_string i) [1..8]"
proof -
  have ok: "display_ok s"
    using loaded_page_display_ok assms(1) by (rule run_display_ok)
  have "display_ok (updateBeatDisplay beat s)"
    using ok by (rule updateBeatDisplay_display_ok)
  then have "map elem_id (beatDisplay (updateBeatDisplay beat s))
        = map (\<lambda>i. ''beat-'' @ num_string i) [1..8]"
    by (simp add: display_ok_def totalBeats_def)
  moreover from assms(3) have "beat \<le> totalBeats"
    by (simp add: totalBeats_def)
  ultimately show ?thesis
    using updateBeatDisplay_marks_one [OF ok assms(2)] by blast
qed

theorem updateBeatDisplay_marks_exactly_one_witness:
  "(1::int) \<le> 5 \<and> (5::int) \<le> 8
   \<and> length (filter (\<lambda>e. ''current'' \<in> set (classList e))
        (beatDisplay (updateBeatDisplay 5 (demo_run Mixer [PlayPause, BeatTick, BeatTick])))) = 1
   \<and> map (\<lambda>e. (elem_id e, ''current'' \<in> set (classList e)))
        (beatDisplay (updateBeatDisplay 5 (demo_run Mixer [PlayPause, BeatTick, BeatTick])))
       = [(''beat-1'', False), (''beat-2'', False), (''beat-3'', False), (''beat-4'', False),
          (''beat-5'', True), (''beat-6'', False), (''beat-7'', False), (''beat-8'', False)]"
proof -
  have "map (\<lambda>e. (elem_id e, ''current'' \<in> set (classList e)))
        (beatDisplay (updateBeatDisplay 5 (demo_run Mixer [PlayPause, BeatTick, BeatTick])))
       = [(''beat-1'', False), (''beat-2'', False), (''beat-3'', False), (''beat-4'', False),
          (''beat-5'', True), (''beat-6'', False), (''beat-7'', False), (''beat-8'', False)]"
    by code_simp
  with updateBeatDisplay_marks_exactly_one
      [OF demo_run_eq [of Mixer "[PlayPause, BeatTick, BeatTick]"], of 5]
  show ?thesis by simp
qed

subsection \<open>Instruments that loaded\<close>

text \<open>
  C9. \<^verbatim>\<open>window.onload\<close> does not keep the claim when a button is clicked while the files
  load. The final loop of \<^verbatim>\<open>window.onload\<close> takes \<open>instrumentStates\<close> for the outcome of
  the load (its comments: check if the instrument was successfully loaded; disable button
  if audio failed to load), but a click sets the same entry to \<^verbatim>\<open>false\<close>. Here every file
  but \<^verbatim>\<open>bass.wav\<close> loads and the Clave button is clicked while Conga loads: when
  \<^verbatim>\<open>window.onload\<close> has run, in either variant, Clave has its player, yet its state is
  \<^verbatim>\<open>false\<close>, its volume \<^verbatim>\<open>-Infinity\<close>, and its button is disabled and without
  \<^verbatim>\<open>active\<close>; \<^verbatim>\<open>toggleInstrument\<close> leaves that state as it is.
\<close>

theorem window_onload_disables_clicked_instrument:
  "map_option volume (map_of (players (demo_clicked Mixer)) ''Clave'') = Some NegInfinity
   \<and> map_of (instrumentStates (demo_clicked Mixer)) ''Clave'' = Some False
   \<and> map_option (\<lambda>b. (disabled b, ''active'' \<in> set (classList b)))
        (map_of (instrumentButtons (demo_clicked Mixer)) ''Clave'') = Some (True, False)
   \<and> toggleInstrument ''Clave'' (demo_clicked Mixer) = Inr (demo_clicked Mixer)
   \<and> map_option volume (map_of (players (demo_clicked Part000)) ''Clave'') = Some NegInfinity
   \<and> map_of (instrumentStates (demo_clicked Part000)) ''Clave'' = Some False
   \<and> map_option (\<lambda>b. (disabled b, ''active'' \<in> set (classList b)))
        (map_of (instrumentButtons (demo_clicked Part000)) ''Clave'') = Some (True, False)
   \<and> toggleInstrument ''Clave'' (demo_clicked Part000) = Inr (demo_clicked Part000)"
proof -
  have m: "map_option volume (map_of (players (demo_clicked Mixer)) ''Clave'') = Some NegInfinity
   \<and> map_of (instrumentStates (demo_clicked Mixer)) ''Clave'' = Some False
   \<and> map_option (\<lambda>b. (disabled b, ''active'' \<in> set (classList b)))
        (map_of (instrumentButtons (demo_clicked Mixer)) ''Clave'') = Some (True, False)"
    by code_simp
  have p: "map_option volume (map_of (players (demo_clicked Part000)) ''Clave'') = Some NegInfinity
   \<and> map_of (instrumentStates (demo_clicked Part000)) ''Clave'' = Some False
   \<and> map_option (\<lambda>b. (disabled b, ''active'' \<in> set (classList b)))
        (map_of (instrumentButtons (demo_clicked Part000)) ''Clave'') = Some (True, False)"
    by code_simp
  from m have "button_disabled (demo_clicked Mixer) ''Clave''"
    by (auto simp: button_disabled_def)
  then have "toggleInstrument ''Clave'' (demo_clicked Mixer) = Inr (demo_clicked Mixer)"
    by (simp add: toggleInstrument_noop)
  moreover from p have "button_disabled (demo_clicked Part000) ''Clave''"
    by (auto simp: button_disabled_def)
  then have "toggleInstrument ''Clave'' (demo_clicked Part000) = Inr (demo_clicked Part000)"
    by (simp add: toggleInstrument_noop)
  ultimately show ?thesis
    using m p by simp
qed

text \<open>
  Without such a click the claim holds: an instrument whose load succeeds and whose
  button is not clicked while a later instrument loads is unmuted and enabled when
  \<^verbatim>\<open>window.onload\<close> has run, whatever else is handled in between.
\<close>

lemma loaded_instrument_unmuted_enabled_unless_clicked:
  assumes "i \<in> set instruments" and "loadOk (url i)"
    and "\<forall>j\<in>set (loaded_after i). ToggleInstrument (name i) \<notin> set (awaiting (name j))"
  shows "map_of (instrumentStates (loaded_page_awaiting v hname loadOk awaiting pg)) (name i)
      = Some True
    \<and> (\<exists>p. map_of (players (loaded_page_awaiting v hname loadOk awaiting pg)) (name i) = Some p
           \<and> volume p = Db 0)
    \<and> (\<exists>b. map_of (instrumentButtons (loaded_page_awaiting v hname loadOk awaiting pg)) (name i)
             = Some b
           \<and> \<not> disabled b \<and> ''active'' \<in> set (classList b))"
proof -
  from audio_initialized_awaiting_one [OF assms(1), of loadOk v hname awaiting pg] assms(2,3)
  obtain p where "view (name i) (audio_initialized_awaiting v hname loadOk awaiting pg)
      = (Some p, Some (new_button i), Some True)"
    by (cases "view (name i) (audio_initialized_awaiting v hname loadOk awaiting pg)") auto
  with assms(1) have "view (name i) (loaded_page_awaiting v hname loadOk awaiting pg)
      = (Some (p\<lparr>volume := Db 0\<rparr>),
         Some ((new_button i)\<lparr>classList := classList_add (classList (new_button i)) [''active'']\<rparr>),
         Some True)"
    by (simp add: view_loaded_page_awaiting find_instrument onload_view_def truthy_def)
  then show ?thesis
    by (simp add: view_def new_button_def)
qed

subsection \<open>State, volume and button agree\<close>



end
